theory Spec2Isabelle
  imports Main "HOL-Library.Word"
begin

unbundle bit_operations_syntax

section \<open>Data shared by the four capture programs\<close>

text \<open>
  Every program declares the same \<^verbatim>\<open>KeyEvent\<close> struct, a static array
  \<^verbatim>\<open>events[MAX_EVENTS]\<close> and the counter \<^verbatim>\<open>event_count\<close>. The two
  \<^verbatim>\<open>double\<close> fields are kept opaque (type variable \<open>'d\<close>): no floating-point
  arithmetic is modelled, the clock readings enter the model as inputs. A
  \<^verbatim>\<open>const char *\<close> or a \<^verbatim>\<open>char[]\<close> holding a C string is a \<open>string\<close>.
\<close>

record 'd KeyEvent =
  seq :: int
  timestamp_ms :: 'd
  event_timestamp_ms :: 'd
  event_type :: string
  keycode :: int
  scancode :: int
  character :: string
  modifiers :: string
  is_repeat :: int

definition MAX_EVENTS :: nat where
  "MAX_EVENTS = 100000"

text \<open>
  What a program does to the outside: each call of \<^verbatim>\<open>write_csv\<close> either
  writes a whole file (destination path and text) or reports that the destination could
  not be opened. The progress lines on stderr are not modelled.
\<close>

datatype file_io = Wrote string string | OpenFailed string

text \<open>A store outside the bounds of the array is undefined in C; here it is an error value.\<close>

datatype error = OutOfBounds

record 'd globals =
  events :: "nat \<Rightarrow> 'd KeyEvent"
  event_count :: nat
  io_log :: "file_io list"

text \<open>
  \<^verbatim>\<open>KeyEvent *e = &events[event_count]; e->... = ...; event_count++;\<close>
\<close>

definition events_put ::
  "('d, 'z) globals_scheme \<Rightarrow> 'd KeyEvent \<Rightarrow> error + ('d, 'z) globals_scheme" where
  "events_put s e =
     (if event_count s < MAX_EVENTS
      then Inr (s\<lparr>events := (events s)(event_count s := e), event_count := event_count s + 1\<rparr>)
      else Inl OutOfBounds)"

text \<open>The records accepted so far, in acceptance order.\<close>

definition snapshot :: "('d, 'z) globals_scheme \<Rightarrow> 'd KeyEvent list" where
  "snapshot s = map (events s) [0..<event_count s]"

subsection \<open>The C library calls used\<close>

text \<open>
  \<^verbatim>\<open>strncat(buf, src, n)\<close> appends at most \<open>n\<close> characters. All callers pass
  \<^verbatim>\<open>len - strlen(buf) - 1\<close> with \<open>len = 64\<close> and a buffer of at most 18
  characters, so the unsigned subtraction never wraps.
  \<^verbatim>\<open>strncpy(dst, src, n); dst[n] = 0\<close> leaves the first \<open>n\<close> characters of \<open>src\<close>.
  \<^verbatim>\<open>snprintf(buf, size, ...)\<close> keeps the first \<open>size - 1\<close> characters.
\<close>

definition strncat :: "string \<Rightarrow> string \<Rightarrow> nat \<Rightarrow> string" where
  "strncat buf src n = buf @ take n src"

definition strncpy :: "string \<Rightarrow> nat \<Rightarrow> string" where
  "strncpy src n = take n src"

definition snprintf :: "nat \<Rightarrow> string \<Rightarrow> string" where
  "snprintf bufsize formatted = take (bufsize - 1) formatted"

fun hex_digits :: "nat \<Rightarrow> string" where
  "hex_digits n =
     (if n < 16 then [''0123456789abcdef'' ! n]
      else hex_digits (n div 16) @ [''0123456789abcdef'' ! (n mod 16)])"

declare hex_digits.simps [simp del]

fun dec_digits :: "nat \<Rightarrow> string" where
  "dec_digits n =
     (if n < 10 then [''0123456789'' ! n]
      else dec_digits (n div 10) @ [''0123456789'' ! (n mod 10)])"

declare dec_digits.simps [simp del]

text \<open>The conversions \<^verbatim>\<open>%02x\<close> (also \<^verbatim>\<open>%02lx\<close>, \<^verbatim>\<open>%02llx\<close>) and \<^verbatim>\<open>%d\<close>.\<close>

definition fmt_02x :: "nat \<Rightarrow> string" where
  "fmt_02x n = (let ds = hex_digits n in replicate (2 - length ds) (CHR ''0'') @ ds)"

definition fmt_d :: "int \<Rightarrow> string" where
  "fmt_d i = (if i < 0 then CHR ''-'' # dec_digits (nat (- i)) else dec_digits (nat i))"

subsection \<open>Writing the CSV file\<close>

text \<open>
  What the calls made by \<^verbatim>\<open>write_csv\<close> return: whether \<^verbatim>\<open>fopen\<close> gives a
  file, the string that \<^verbatim>\<open>strftime\<close> leaves in \<^verbatim>\<open>time_str\<close>, and the text
  that the conversion \<^verbatim>\<open>%.3f\<close> produces for a \<^verbatim>\<open>double\<close>.
\<close>

record 'd csv_env =
  fopen_ok :: bool
  time_str :: string
  fmt_3f :: "'d \<Rightarrow> string"

record 'd win_env = "'d csv_env" +
  wProcessorArchitecture :: "16 word"

record 'd mac_env = "'d csv_env" +
  platform_ver :: string
  machine :: string

definition newline :: string where
  "newline = [CHR 0x0A]"

text \<open>
  The same in all four programs: the header line, and the line printed for one event by
  \<^verbatim>\<open>fprintf(f, "%d,%.3f,%.3f,%s,%d,%d,%s,%s,%d\n", ...)\<close>.
\<close>

definition csv_header :: string where
  "csv_header =
     ''seq,timestamp_ms,event_timestamp_ms,event_type,keycode,scancode,character,modifiers,is_repeat''
     @ newline"

definition csv_row :: "('d \<Rightarrow> string) \<Rightarrow> 'd KeyEvent \<Rightarrow> string" where
  "csv_row f e =
     fmt_d (seq e) @ '','' @ f (timestamp_ms e) @ '','' @ f (event_timestamp_ms e) @ '','' @
     event_type e @ '','' @ fmt_d (keycode e) @ '','' @ fmt_d (scancode e) @ '','' @
     character e @ '','' @ modifiers e @ '','' @ fmt_d (is_repeat e) @ newline"

text \<open>The header line followed by the loop \<^verbatim>\<open>for (i = 0; i < event_count; i++)\<close>.\<close>

definition csv_table :: "('d \<Rightarrow> string) \<Rightarrow> ('d, 'z) globals_scheme \<Rightarrow> string" where
  "csv_table f s = csv_header @ concat (map (csv_row f) (snapshot s))"

text \<open>
  Reading a text back: the pieces between separators (\<open>n\<close> separators give \<open>n + 1\<close>
  pieces), the lines of a text (each ended by a newline), the fields of one line.
\<close>

fun split_on :: "char \<Rightarrow> string \<Rightarrow> string list" where
  "split_on c [] = [[]]"
| "split_on c (x # xs) =
     (if x = c then [] # split_on c xs
      else case split_on c xs of [] \<Rightarrow> [[x]] | p # ps \<Rightarrow> (x # p) # ps)"

definition lines_of :: "string \<Rightarrow> string list" where
  "lines_of text =
     (let pieces = split_on (CHR 0x0A) text
      in if last pieces = [] then butlast pieces else pieces)"

definition fields_of :: "string \<Rightarrow> string list" where
  "fields_of line = split_on (CHR '','') line"

subsection \<open>Constants of the Windows headers\<close>

definition WM_DESTROY :: "'a::len word" where "WM_DESTROY = 0x0002"
definition WM_PAINT :: "'a::len word" where "WM_PAINT = 0x000F"
definition WM_KEYDOWN :: "'a::len word" where "WM_KEYDOWN = 0x0100"
definition WM_KEYUP :: "'a::len word" where "WM_KEYUP = 0x0101"
definition WM_SYSKEYDOWN :: "'a::len word" where "WM_SYSKEYDOWN = 0x0104"
definition WM_SYSKEYUP :: "'a::len word" where "WM_SYSKEYUP = 0x0105"
definition LLKHF_UP :: "32 word" where "LLKHF_UP = 0x80"
definition CTRL_C_EVENT :: "32 word" where "CTRL_C_EVENT = 0"
definition CTRL_CLOSE_EVENT :: "32 word" where "CTRL_CLOSE_EVENT = 2"
definition PROCESSOR_ARCHITECTURE_INTEL :: "16 word" where "PROCESSOR_ARCHITECTURE_INTEL = 0"
definition PROCESSOR_ARCHITECTURE_AMD64 :: "16 word" where "PROCESSOR_ARCHITECTURE_AMD64 = 9"
definition PROCESSOR_ARCHITECTURE_ARM64 :: "16 word" where "PROCESSOR_ARCHITECTURE_ARM64 = 12"

definition VK_BACK :: "'a::len word" where "VK_BACK = 0x08"
definition VK_TAB :: "'a::len word" where "VK_TAB = 0x09"
definition VK_RETURN :: "'a::len word" where "VK_RETURN = 0x0D"
definition VK_SHIFT :: "'a::len word" where "VK_SHIFT = 0x10"
definition VK_CONTROL :: "'a::len word" where "VK_CONTROL = 0x11"
definition VK_MENU :: "'a::len word" where "VK_MENU = 0x12"
definition VK_CAPITAL :: "'a::len word" where "VK_CAPITAL = 0x14"
definition VK_ESCAPE :: "'a::len word" where "VK_ESCAPE = 0x1B"
definition VK_SPACE :: "'a::len word" where "VK_SPACE = 0x20"
definition VK_PRIOR :: "'a::len word" where "VK_PRIOR = 0x21"
definition VK_NEXT :: "'a::len word" where "VK_NEXT = 0x22"
definition VK_END :: "'a::len word" where "VK_END = 0x23"
definition VK_HOME :: "'a::len word" where "VK_HOME = 0x24"
definition VK_LEFT :: "'a::len word" where "VK_LEFT = 0x25"
definition VK_UP :: "'a::len word" where "VK_UP = 0x26"
definition VK_RIGHT :: "'a::len word" where "VK_RIGHT = 0x27"
definition VK_DOWN :: "'a::len word" where "VK_DOWN = 0x28"
definition VK_INSERT :: "'a::len word" where "VK_INSERT = 0x2D"
definition VK_DELETE :: "'a::len word" where "VK_DELETE = 0x2E"
definition VK_LWIN :: "'a::len word" where "VK_LWIN = 0x5B"
definition VK_RWIN :: "'a::len word" where "VK_RWIN = 0x5C"
definition VK_LSHIFT :: "'a::len word" where "VK_LSHIFT = 0xA0"
definition VK_RSHIFT :: "'a::len word" where "VK_RSHIFT = 0xA1"
definition VK_LCONTROL :: "'a::len word" where "VK_LCONTROL = 0xA2"
definition VK_RCONTROL :: "'a::len word" where "VK_RCONTROL = 0xA3"
definition VK_LMENU :: "'a::len word" where "VK_LMENU = 0xA4"
definition VK_RMENU :: "'a::len word" where "VK_RMENU = 0xA5"

section \<open>The two Windows programs\<close>

subsection \<open>What both have: modifier string, CSV metadata\<close>

text \<open>
  One invocation of a Windows callback: the \<^verbatim>\<open>WPARAM\<close> argument and what the Win32
  calls made during the invocation return: \<^verbatim>\<open>qpc_to_ms\<close> of
  \<^verbatim>\<open>QueryPerformanceCounter\<close>, the message time converted to \<^verbatim>\<open>double\<close>
  (\<^verbatim>\<open>kb->time\<close> in the hook, \<^verbatim>\<open>GetMessageTime()\<close> in the window), the result of
  \<^verbatim>\<open>ToUnicode\<close> and the \<^verbatim>\<open>wchar[0]\<close> it leaves, and the key states
  (\<^verbatim>\<open>GetAsyncKeyState\<close> in the hook, \<^verbatim>\<open>GetKeyState\<close> in the window).
\<close>

record 'd win_call =
  wParam :: "64 word"
  qpc_ms :: 'd
  event_time :: 'd
  ToUnicode_result :: int
  ToUnicode_wchar0 :: "16 word"
  key_state :: "32 word \<Rightarrow> 16 word"

text \<open>
  The block repeated for every modifier after the first:
  \<^verbatim>\<open>if (!first) strncat(buf, "+", ...); strncat(buf, name, ...); first = 0;\<close>
\<close>

definition add_modifier :: "string \<Rightarrow> nat \<Rightarrow> string \<times> bool \<Rightarrow> string \<times> bool" where
  "add_modifier name len st =
     (let buf = fst st;
          first = snd st;
          buf = (if \<not> first then strncat buf ''+'' (len - length buf - 1) else buf);
          buf = strncat buf name (len - length buf - 1)
      in (buf, False))"

text \<open>
  \<^verbatim>\<open>build_modifier_string\<close> of terminal\_windows.c and of gui\_windows.c: the same body,
  over \<^verbatim>\<open>GetAsyncKeyState\<close> in the first and \<^verbatim>\<open>GetKeyState\<close> in the second.
\<close>

definition build_modifier_string_win :: "(32 word \<Rightarrow> 16 word) \<Rightarrow> nat \<Rightarrow> string" where
  "build_modifier_string_win get_key_state len =
     (let st = ('''', True);
          st = (if get_key_state VK_SHIFT AND 0x8000 \<noteq> 0
                then (strncat (fst st) ''shift'' (len - length (fst st) - 1), False) else st);
          st = (if get_key_state VK_CONTROL AND 0x8000 \<noteq> 0
                then add_modifier ''ctrl'' len st else st);
          st = (if get_key_state VK_MENU AND 0x8000 \<noteq> 0
                then add_modifier ''alt'' len st else st)
      in if snd st then strncpy ''none'' (len - 1) else fst st)"

definition arch_name :: "16 word \<Rightarrow> string" where
  "arch_name a =
     (if a = PROCESSOR_ARCHITECTURE_AMD64 then ''x86_64''
      else if a = PROCESSOR_ARCHITECTURE_ARM64 then ''arm64''
      else if a = PROCESSOR_ARCHITECTURE_INTEL then ''x86''
      else ''unknown'')"

text \<open>\<^verbatim>\<open>write_csv\<close> of the two programs differs in the \<^verbatim>\<open>mode\<close> line only.\<close>

definition csv_text_win :: "string \<Rightarrow> 'd win_env \<Rightarrow> ('d, 'z) globals_scheme \<Rightarrow> string" where
  "csv_text_win mode env s =
     ''# platform=Windows-'' @ arch_name (wProcessorArchitecture env) @ newline @
     ''# language=c'' @ newline @
     ''# mode='' @ mode @ newline @
     ''# clock_source=QueryPerformanceCounter'' @ newline @
     ''# start_time_utc='' @ time_str env @ newline @
     csv_table (fmt_3f env) s"

definition write_csv_win ::
  "string \<Rightarrow> 'd win_env \<Rightarrow> string \<Rightarrow> ('d, 'z) globals_scheme \<Rightarrow> ('d, 'z) globals_scheme" where
  "write_csv_win mode env path s =
     (if \<not> fopen_ok env then s\<lparr>io_log := io_log s @ [OpenFailed path]\<rparr>
      else s\<lparr>io_log := io_log s @ [Wrote path (csv_text_win mode env s)]\<rparr>)"

subsection \<open>terminal\_windows.c\<close>

text \<open>
  An invocation of \<^verbatim>\<open>keyboard_hook\<close> has also \<^verbatim>\<open>nCode\<close> and the fields of the
  \<^verbatim>\<open>KBDLLHOOKSTRUCT\<close> behind \<^verbatim>\<open>lParam\<close>.
\<close>

record 'd hook_call = "'d win_call" +
  nCode :: int
  vkCode :: "32 word"
  scanCode :: "32 word"
  kb_flags :: "32 word"

record 'd tw_state = "'d globals" +
  running :: int
  quit_posted :: bool

text \<open>The \<^verbatim>\<open>switch (vk)\<close> of \<^verbatim>\<open>vk_to_char\<close>, one pair for each \<^verbatim>\<open>case\<close>.\<close>

definition named_keys_tw :: "(32 word \<times> string) list" where
  "named_keys_tw =
     [(VK_RETURN, ''return''), (VK_TAB, ''tab''), (VK_SPACE, ''space''),
      (VK_BACK, ''backspace''), (VK_ESCAPE, ''escape''),
      (VK_LSHIFT, ''shift_l''), (VK_RSHIFT, ''shift_r''),
      (VK_LCONTROL, ''ctrl_l''), (VK_RCONTROL, ''ctrl_r''),
      (VK_LMENU, ''alt_l''), (VK_RMENU, ''alt_r''),
      (VK_LWIN, ''win_l''), (VK_RWIN, ''win_r''),
      (VK_CAPITAL, ''capslock''), (VK_DELETE, ''delete''), (VK_INSERT, ''insert''),
      (VK_HOME, ''home''), (VK_END, ''end''), (VK_PRIOR, ''pageup''), (VK_NEXT, ''pagedown''),
      (VK_LEFT, ''left''), (VK_RIGHT, ''right''), (VK_UP, ''up''), (VK_DOWN, ''down'')]"

text \<open>
  \<^verbatim>\<open>vk_to_char\<close>, given what \<^verbatim>\<open>ToUnicode\<close> returned and left in
  \<^verbatim>\<open>wchar[0]\<close>. The static buffer has 16 bytes.
\<close>

definition vk_to_char_tw :: "int \<Rightarrow> 16 word \<Rightarrow> 32 word \<Rightarrow> string" where
  "vk_to_char_tw result wchar0 vk =
     (if result = 1 \<and> 32 \<le> wchar0 \<and> wchar0 < 127 then [char_of (unat wchar0)]
      else case map_of named_keys_tw vk of
             Some name \<Rightarrow> name
           | None \<Rightarrow> snprintf 16 (''vk_0x'' @ fmt_02x (unat vk)))"

definition keyboard_hook :: "'d tw_state \<Rightarrow> 'd hook_call \<Rightarrow> error + 'd tw_state" where
  "keyboard_hook s h =
     (if nCode h < 0 \<or> event_count s \<ge> MAX_EVENTS then Inr s
      else
        let ts_ms = qpc_ms h;
            event_ts_ms = event_time h;
            classified =
              (if wParam h = WM_KEYDOWN \<or> wParam h = WM_SYSKEYDOWN
               then Some (''key_down'', if kb_flags h AND LLKHF_UP \<noteq> 0 then 0 else 0)
               else if wParam h = WM_KEYUP \<or> wParam h = WM_SYSKEYUP
               then Some (''key_up'', 0)
               else None)
        in case classified of
             None \<Rightarrow> Inr s
           | Some (event_type_str, is_repeat_flag) \<Rightarrow>
               events_put s
                 \<lparr>seq = int (event_count s) + 1,
                  timestamp_ms = ts_ms,
                  event_timestamp_ms = event_ts_ms,
                  event_type = event_type_str,
                  keycode = sint (vkCode h),
                  scancode = sint (scanCode h),
                  character =
                    strncpy (vk_to_char_tw (ToUnicode_result h) (ToUnicode_wchar0 h) (vkCode h)) 15,
                  modifiers = build_modifier_string_win (key_state h) 64,
                  is_repeat = is_repeat_flag\<rparr>)"

text \<open>The hook called for a sequence of key events; an error stops the run.\<close>

fun run_keyboard_hook :: "'d tw_state \<Rightarrow> 'd hook_call list \<Rightarrow> error + 'd tw_state" where
  "run_keyboard_hook s [] = Inr s"
| "run_keyboard_hook s (h # hs) =
     (case keyboard_hook s h of Inl err \<Rightarrow> Inl err | Inr s' \<Rightarrow> run_keyboard_hook s' hs)"

text \<open>
  \<^verbatim>\<open>console_handler\<close>: the new globals and the \<^verbatim>\<open>BOOL\<close> returned.
  \<^verbatim>\<open>PostThreadMessage(..., WM_QUIT, 0, 0)\<close> is recorded in \<open>quit_posted\<close>.
\<close>

definition console_handler :: "'d tw_state \<Rightarrow> 32 word \<Rightarrow> 'd tw_state \<times> bool" where
  "console_handler s type =
     (if type = CTRL_C_EVENT \<or> type = CTRL_CLOSE_EVENT
      then (s\<lparr>running := 0, quit_posted := True\<rparr>, True)
      else (s, False))"

definition write_csv_tw :: "'d win_env \<Rightarrow> string \<Rightarrow> 'd tw_state \<Rightarrow> 'd tw_state" where
  "write_csv_tw env path s = write_csv_win ''terminal'' env path s"

text \<open>
  The message loop of \<^verbatim>\<open>main\<close>:
  \<^verbatim>\<open>while (running && GetMessage(&msg, NULL, 0, 0)) { ... }\<close>. While
  \<^verbatim>\<open>GetMessage\<close> waits, the system calls the hook and the console handler; then
  \<^verbatim>\<open>GetMessage\<close> returns, nonzero for a message and zero for \<^verbatim>\<open>WM_QUIT\<close>.
  One element of the list below is one call of \<^verbatim>\<open>GetMessage\<close>: what is called during
  it, and whether it returns nonzero. The loop has not returned (\<open>None\<close>) when
  \<^verbatim>\<open>GetMessage\<close> waits and nothing more arrives.
\<close>

datatype 'd tw_stimulus = Hook "'d hook_call" | Ctrl "32 word"

fun deliver_tw :: "'d tw_state \<Rightarrow> 'd tw_stimulus \<Rightarrow> error + 'd tw_state" where
  "deliver_tw s (Hook h) = keyboard_hook s h"
| "deliver_tw s (Ctrl type) = Inr (fst (console_handler s type))"

fun deliver_all_tw :: "'d tw_state \<Rightarrow> 'd tw_stimulus list \<Rightarrow> error + 'd tw_state" where
  "deliver_all_tw s [] = Inr s"
| "deliver_all_tw s (x # xs) =
     (case deliver_tw s x of Inl err \<Rightarrow> Inl err | Inr s' \<Rightarrow> deliver_all_tw s' xs)"

fun message_loop_tw ::
  "'d tw_state \<Rightarrow> ('d tw_stimulus list \<times> bool) list \<Rightarrow> (error + 'd tw_state) option" where
  "message_loop_tw s [] = (if running s \<noteq> 0 then None else Some (Inr s))"
| "message_loop_tw s ((arrivals, got_message) # rest) =
     (if running s = 0 then Some (Inr s)
      else case deliver_all_tw s arrivals of
             Inl err \<Rightarrow> Some (Inl err)
           | Inr s' \<Rightarrow> if got_message then message_loop_tw s' rest else Some (Inr s'))"

definition DEFAULT_OUTPUT_tw :: string where
  "DEFAULT_OUTPUT_tw = [CHR ''o'', CHR ''u'', CHR ''t'', CHR ''p'', CHR ''u'', CHR ''t'', CHR 0x5C]
     @ ''c_terminal_windows.csv''"

definition zero_event :: "('d::zero) KeyEvent" where
  "zero_event =
     \<lparr>seq = 0, timestamp_ms = 0, event_timestamp_ms = 0, event_type = '''', keycode = 0,
      scancode = 0, character = '''', modifiers = '''', is_repeat = 0\<rparr>"

definition tw_init :: "('d::zero) tw_state" where
  "tw_init =
     \<lparr>events = (\<lambda>_. zero_event), event_count = 0, io_log = [], running = 1,
      quit_posted = False\<rparr>"

text \<open>
  \<^verbatim>\<open>main\<close>: the exit status and the final globals, when it returns.
  \<open>hook_installed\<close> is whether \<^verbatim>\<open>SetWindowsHookExA\<close> gave a hook.
\<close>

definition main_tw ::
  "string list \<Rightarrow> bool \<Rightarrow> ('d::zero) win_env \<Rightarrow> ('d tw_stimulus list \<times> bool) list
   \<Rightarrow> (error + int \<times> 'd tw_state) option" where
  "main_tw argv hook_installed env calls =
     (let output_path = (if length argv > 1 then argv ! 1 else DEFAULT_OUTPUT_tw)
      in if \<not> hook_installed then Some (Inr (1, tw_init))
         else case message_loop_tw tw_init calls of
                None \<Rightarrow> None
              | Some (Inl err) \<Rightarrow> Some (Inl err)
              | Some (Inr s) \<Rightarrow> Some (Inr (0, write_csv_tw env output_path s)))"

subsection \<open>gui\_windows.c\<close>

record 'd wnd_call = "'d win_call" +
  msg :: "32 word"
  lParam :: "64 word"

record 'd gw_state = "'d globals" +
  output_path_gw :: string
  quit_posted_gw :: bool

definition named_keys_gw :: "(32 word \<times> string) list" where
  "named_keys_gw =
     [(VK_RETURN, ''return''), (VK_TAB, ''tab''), (VK_SPACE, ''space''),
      (VK_BACK, ''backspace''), (VK_ESCAPE, ''escape''),
      (VK_LSHIFT, ''shift_l''), (VK_RSHIFT, ''shift_r''),
      (VK_LCONTROL, ''ctrl_l''), (VK_RCONTROL, ''ctrl_r''),
      (VK_LMENU, ''alt_l''), (VK_RMENU, ''alt_r''),
      (VK_CAPITAL, ''capslock''), (VK_DELETE, ''delete''),
      (VK_LEFT, ''left''), (VK_RIGHT, ''right''), (VK_UP, ''up''), (VK_DOWN, ''down'')]"

definition vk_to_char_gw :: "int \<Rightarrow> 16 word \<Rightarrow> 32 word \<Rightarrow> string" where
  "vk_to_char_gw result wchar0 vk =
     (if result = 1 \<and> 32 \<le> wchar0 \<and> wchar0 < 127 then [char_of (unat wchar0)]
      else case map_of named_keys_gw vk of
             Some name \<Rightarrow> name
           | None \<Rightarrow> snprintf 16 (''vk_0x'' @ fmt_02x (unat vk)))"

definition write_csv_gw :: "'d win_env \<Rightarrow> 'd gw_state \<Rightarrow> 'd gw_state" where
  "write_csv_gw env s = write_csv_win ''gui'' env (output_path_gw s) s"

text \<open>
  \<^verbatim>\<open>record_key_event(vk, lParam, event_type_str)\<close>; \<open>vk\<close> is the \<^verbatim>\<open>WPARAM\<close>
  of the message. The right shift of the signed \<^verbatim>\<open>LPARAM\<close> is arithmetic.
\<close>

definition record_key_event :: "'d gw_state \<Rightarrow> 'd wnd_call \<Rightarrow> string \<Rightarrow> error + 'd gw_state" where
  "record_key_event s m event_type_str =
     (if event_count s \<ge> MAX_EVENTS then Inr s
      else
        let ts_ms = qpc_ms m;
            event_ts_ms = event_time m;
            scancode_v = (ucast (signed_drop_bit 16 (lParam m) AND 0xFF) :: 32 word);
            is_repeat_v =
              (if event_type_str ! 4 = CHR ''d''
               then (if lParam m AND push_bit 30 1 \<noteq> 0 then 1 else 0)
               else 0)
        in events_put s
             \<lparr>seq = int (event_count s) + 1,
              timestamp_ms = ts_ms,
              event_timestamp_ms = event_ts_ms,
              event_type = event_type_str,
              keycode = sint (ucast (wParam m) :: 32 word),
              scancode = sint scancode_v,
              character =
                strncpy (vk_to_char_gw (ToUnicode_result m) (ToUnicode_wchar0 m)
                           (ucast (wParam m)))
                  15,
              modifiers = build_modifier_string_win (key_state m) 64,
              is_repeat = is_repeat_v\<rparr>)"

text \<open>
  \<^verbatim>\<open>wnd_proc\<close>. \<^verbatim>\<open>PostQuitMessage(0)\<close> is recorded in \<open>quit_posted_gw\<close>;
  painting and \<^verbatim>\<open>DefWindowProc\<close> leave the globals as they are.
\<close>

definition wnd_proc :: "'d win_env \<Rightarrow> 'd gw_state \<Rightarrow> 'd wnd_call \<Rightarrow> error + 'd gw_state" where
  "wnd_proc env s m =
     (if msg m = WM_KEYDOWN \<or> msg m = WM_SYSKEYDOWN then
        (if wParam m = VK_ESCAPE then Inr ((write_csv_gw env s)\<lparr>quit_posted_gw := True\<rparr>)
         else record_key_event s m ''key_down'')
      else if msg m = WM_KEYUP \<or> msg m = WM_SYSKEYUP then record_key_event s m ''key_up''
      else if msg m = WM_PAINT then Inr s
      else if msg m = WM_DESTROY then Inr ((write_csv_gw env s)\<lparr>quit_posted_gw := True\<rparr>)
      else Inr s)"

fun run_wnd_proc :: "'d win_env \<Rightarrow> 'd gw_state \<Rightarrow> 'd wnd_call list \<Rightarrow> error + 'd gw_state" where
  "run_wnd_proc env s [] = Inr s"
| "run_wnd_proc env s (m # ms) =
     (case wnd_proc env s m of Inl err \<Rightarrow> Inl err | Inr s' \<Rightarrow> run_wnd_proc env s' ms)"

definition DEFAULT_OUTPUT_gw :: string where
  "DEFAULT_OUTPUT_gw = [CHR ''o'', CHR ''u'', CHR ''t'', CHR ''p'', CHR ''u'', CHR ''t'', CHR 0x5C]
     @ ''c_gui_windows.csv''"

text \<open>The globals when the message loop of \<^verbatim>\<open>WinMain\<close> starts.\<close>

definition gw_init :: "string \<Rightarrow> ('d::zero) gw_state" where
  "gw_init lpCmd =
     \<lparr>events = (\<lambda>_. zero_event), event_count = 0, io_log = [],
      output_path_gw = (if lpCmd \<noteq> [] then lpCmd else DEFAULT_OUTPUT_gw),
      quit_posted_gw = False\<rparr>"

section \<open>The two macOS programs\<close>

subsection \<open>gui\_macos.m\<close>

definition NSEventModifierFlagShift :: "64 word" where "NSEventModifierFlagShift = push_bit 17 1"
definition NSEventModifierFlagControl :: "64 word" where "NSEventModifierFlagControl = push_bit 18 1"
definition NSEventModifierFlagOption :: "64 word" where "NSEventModifierFlagOption = push_bit 19 1"
definition NSEventModifierFlagCommand :: "64 word" where "NSEventModifierFlagCommand = push_bit 20 1"

text \<open>
  What a callback reads from its \<^verbatim>\<open>NSEvent\<close>, and the clock:
  \<^verbatim>\<open>[nsEvent timestamp] * 1000.0\<close> and
  \<^verbatim>\<open>abs_to_ms(mach_absolute_time() - start_time_abs)\<close>.
\<close>

record 'd ns_event =
  keyCode :: "16 word"
  modifierFlags :: "64 word"
  isARepeat :: bool
  ns_timestamp_ms :: 'd
  ns_now_ms :: 'd

text \<open>\<open>exited\<close>: the process has ended (\<^verbatim>\<open>[NSApp terminate:nil]\<close>, \<^verbatim>\<open>_exit(0)\<close>).\<close>

record 'd gm_state = "'d globals" +
  output_path :: string
  modifier_key_down :: "nat \<Rightarrow> int"
  exited :: bool

definition build_modifier_string_gm :: "64 word \<Rightarrow> nat \<Rightarrow> string" where
  "build_modifier_string_gm flags len =
     (let st = ('''', True);
          st = (if flags AND NSEventModifierFlagShift \<noteq> 0
                then (strncat (fst st) ''shift'' (len - length (fst st) - 1), False) else st);
          st = (if flags AND NSEventModifierFlagControl \<noteq> 0
                then add_modifier ''ctrl'' len st else st);
          st = (if flags AND NSEventModifierFlagOption \<noteq> 0
                then add_modifier ''alt'' len st else st);
          st = (if flags AND NSEventModifierFlagCommand \<noteq> 0
                then add_modifier ''cmd'' len st else st)
      in if snd st then strncpy ''none'' (len - 1) else fst st)"

text \<open>
  The table \<^verbatim>\<open>map[128]\<close> of \<^verbatim>\<open>keycode_to_char\<close>: the initialised entries; every
  other entry is a null pointer.
\<close>

definition map_gm :: "(nat \<times> string) list" where
  "map_gm =
     [(0x00, ''a''), (0x01, ''s''), (0x02, ''d''), (0x03, ''f''),
      (0x04, ''h''), (0x05, ''g''), (0x06, ''z''), (0x07, ''x''),
      (0x08, ''c''), (0x09, ''v''), (0x0B, ''b''), (0x0C, ''q''),
      (0x0D, ''w''), (0x0E, ''e''), (0x0F, ''r''), (0x10, ''y''),
      (0x11, ''t''), (0x12, ''1''), (0x13, ''2''), (0x14, ''3''),
      (0x15, ''4''), (0x16, ''6''), (0x17, ''5''), (0x18, ''9''),
      (0x19, ''7''), (0x1A, ''8''), (0x1B, ''0''), (0x1C, ''o''),
      (0x1D, ''u''), (0x1E, ''i''), (0x1F, ''p''), (0x20, ''l''),
      (0x21, ''j''), (0x22, ''k''), (0x23, ''n''), (0x24, ''return''),
      (0x26, ''m''), (0x30, ''tab''), (0x31, ''space''),
      (0x33, ''backspace''), (0x35, ''escape'')]"

definition keycode_to_char_gm :: "16 word \<Rightarrow> string" where
  "keycode_to_char_gm kc =
     (case (if kc < 128 then map_of map_gm (unat kc) else None) of
        Some name \<Rightarrow> name
      | None \<Rightarrow> snprintf 8 (''0x'' @ fmt_02x (unat kc)))"

definition record_event :: "'d gm_state \<Rightarrow> 'd ns_event \<Rightarrow> string \<Rightarrow> error + 'd gm_state" where
  "record_event s ev event_type_str =
     (if event_count s \<ge> MAX_EVENTS then Inr s
      else
        let ts_ms = ns_now_ms ev;
            event_ts_ms = ns_timestamp_ms ev;
            kc = keyCode ev;
            flags = modifierFlags ev;
            repeat = isARepeat ev
        in events_put s
             \<lparr>seq = int (event_count s) + 1,
              timestamp_ms = ts_ms,
              event_timestamp_ms = event_ts_ms,
              event_type = event_type_str,
              keycode = uint kc,
              scancode = 0,
              character = strncpy (keycode_to_char_gm kc) 7,
              modifiers = build_modifier_string_gm flags 64,
              is_repeat = (if repeat then 1 else 0)\<rparr>)"

definition record_flags_changed :: "'d gm_state \<Rightarrow> 'd ns_event \<Rightarrow> error + 'd gm_state" where
  "record_flags_changed s ev =
     (if event_count s \<ge> MAX_EVENTS then Inr s
      else
        let ts_ms = ns_now_ms ev;
            event_ts_ms = ns_timestamp_ms ev;
            kc = keyCode ev;
            flags = modifierFlags ev;
            classified =
              (if kc < 256 \<and> modifier_key_down s (unat kc) \<noteq> 0
               then (''key_up'', s\<lparr>modifier_key_down := (modifier_key_down s)(unat kc := 0)\<rparr>)
               else (''key_down'',
                     if kc < 256
                     then s\<lparr>modifier_key_down := (modifier_key_down s)(unat kc := 1)\<rparr>
                     else s));
            event_type_str = fst classified;
            s1 = snd classified
        in events_put s1
             \<lparr>seq = int (event_count s1) + 1,
              timestamp_ms = ts_ms,
              event_timestamp_ms = event_ts_ms,
              event_type = event_type_str,
              keycode = uint kc,
              scancode = 0,
              character = strncpy (keycode_to_char_gm kc) 7,
              modifiers = build_modifier_string_gm flags 64,
              is_repeat = 0\<rparr>)"

definition csv_text_mac :: "string \<Rightarrow> 'd mac_env \<Rightarrow> ('d, 'z) globals_scheme \<Rightarrow> string" where
  "csv_text_mac mode env s =
     ''# platform=macOS-'' @ platform_ver env @ ''-'' @ machine env @ newline @
     ''# language=c'' @ newline @
     ''# mode='' @ mode @ newline @
     ''# clock_source=mach_absolute_time'' @ newline @
     ''# start_time_utc='' @ time_str env @ newline @
     csv_table (fmt_3f env) s"

definition write_csv_mac ::
  "string \<Rightarrow> 'd mac_env \<Rightarrow> string \<Rightarrow> ('d, 'z) globals_scheme \<Rightarrow> ('d, 'z) globals_scheme" where
  "write_csv_mac mode env path s =
     (if \<not> fopen_ok env then s\<lparr>io_log := io_log s @ [OpenFailed path]\<rparr>
      else s\<lparr>io_log := io_log s @ [Wrote path (csv_text_mac mode env s)]\<rparr>)"

definition write_csv_gm :: "'d mac_env \<Rightarrow> 'd gm_state \<Rightarrow> 'd gm_state" where
  "write_csv_gm env s = write_csv_mac ''gui'' env (output_path s) s"

text \<open>The methods of \<^verbatim>\<open>TimingWindow\<close> and the signal handler.\<close>

definition keyDown :: "'d mac_env \<Rightarrow> 'd gm_state \<Rightarrow> 'd ns_event \<Rightarrow> error + 'd gm_state" where
  "keyDown env s ev =
     (if keyCode ev = 0x35 then Inr ((write_csv_gm env s)\<lparr>exited := True\<rparr>)
      else record_event s ev ''key_down'')"

definition keyUp :: "'d gm_state \<Rightarrow> 'd ns_event \<Rightarrow> error + 'd gm_state" where
  "keyUp s ev = record_event s ev ''key_up''"

definition flagsChanged :: "'d gm_state \<Rightarrow> 'd ns_event \<Rightarrow> error + 'd gm_state" where
  "flagsChanged s ev = record_flags_changed s ev"

definition signal_handler_gm :: "'d mac_env \<Rightarrow> 'd gm_state \<Rightarrow> int \<Rightarrow> 'd gm_state" where
  "signal_handler_gm env s sig = (write_csv_gm env s)\<lparr>exited := True\<rparr>"

text \<open>What the run loop of \<^verbatim>\<open>[NSApp run]\<close> calls, until the process has ended.\<close>

datatype 'd gm_call =
  KeyDown "'d ns_event" | KeyUp "'d ns_event" | FlagsChanged "'d ns_event" | Signal int

fun deliver_gm :: "'d mac_env \<Rightarrow> 'd gm_state \<Rightarrow> 'd gm_call \<Rightarrow> error + 'd gm_state" where
  "deliver_gm env s (KeyDown ev) = keyDown env s ev"
| "deliver_gm env s (KeyUp ev) = keyUp s ev"
| "deliver_gm env s (FlagsChanged ev) = flagsChanged s ev"
| "deliver_gm env s (Signal sig) = Inr (signal_handler_gm env s sig)"

fun run_gm :: "'d mac_env \<Rightarrow> 'd gm_state \<Rightarrow> 'd gm_call list \<Rightarrow> error + 'd gm_state" where
  "run_gm env s [] = Inr s"
| "run_gm env s (c # cs) =
     (if exited s then Inr s
      else case deliver_gm env s c of Inl err \<Rightarrow> Inl err | Inr s' \<Rightarrow> run_gm env s' cs)"

definition gm_init :: "string \<Rightarrow> ('d::zero) gm_state" where
  "gm_init path =
     \<lparr>events = (\<lambda>_. zero_event), event_count = 0, io_log = [], output_path = path,
      modifier_key_down = (\<lambda>_. 0), exited = False\<rparr>"

subsection \<open>terminal\_macos.c\<close>

definition kCGEventKeyDown :: "32 word" where "kCGEventKeyDown = 10"
definition kCGEventKeyUp :: "32 word" where "kCGEventKeyUp = 11"
definition kCGEventFlagsChanged :: "32 word" where "kCGEventFlagsChanged = 12"
definition kCGEventFlagMaskShift :: "64 word" where "kCGEventFlagMaskShift = 0x00020000"
definition kCGEventFlagMaskControl :: "64 word" where "kCGEventFlagMaskControl = 0x00040000"
definition kCGEventFlagMaskAlternate :: "64 word" where "kCGEventFlagMaskAlternate = 0x00080000"
definition kCGEventFlagMaskCommand :: "64 word" where "kCGEventFlagMaskCommand = 0x00100000"

text \<open>
  What \<^verbatim>\<open>event_callback\<close> reads from its \<^verbatim>\<open>CGEventRef\<close>: the keycode and the
  autorepeat field (\<^verbatim>\<open>int64_t\<close>), the flags, the timestamp divided by \<^verbatim>\<open>1e6\<close>;
  and the clock.
\<close>

record 'd cg_event =
  cg_keycode :: "64 word"
  cg_flags :: "64 word"
  cg_autorepeat :: "64 word"
  cg_timestamp_ms :: 'd
  cg_now_ms :: 'd

record 'd tm_state = "'d globals" +
  running_tm :: int
  modifier_key_down_tm :: "nat \<Rightarrow> int"
  run_loop_stopped :: bool

definition build_modifier_string_tm :: "64 word \<Rightarrow> nat \<Rightarrow> string" where
  "build_modifier_string_tm flags len =
     (let st = ('''', True);
          st = (if flags AND kCGEventFlagMaskShift \<noteq> 0
                then (strncat (fst st) ''shift'' (len - length (fst st) - 1), False) else st);
          st = (if flags AND kCGEventFlagMaskControl \<noteq> 0
                then add_modifier ''ctrl'' len st else st);
          st = (if flags AND kCGEventFlagMaskAlternate \<noteq> 0
                then add_modifier ''alt'' len st else st);
          st = (if flags AND kCGEventFlagMaskCommand \<noteq> 0
                then add_modifier ''cmd'' len st else st)
      in if snd st then strncpy ''none'' (len - 1) else fst st)"

text \<open>
  The table of \<^verbatim>\<open>keycode_to_char\<close> is indexed by the \<^verbatim>\<open>kVK_...\<close> constants of
  the Carbon header, here with their values (\<^verbatim>\<open>kVK_ANSI_A = 0x00\<close> and so on, in the
  order of the source); its length is the largest index plus one.
\<close>

definition map_tm :: "(nat \<times> string) list" where
  "map_tm =
     [(0x00, ''a''), (0x01, ''s''), (0x02, ''d''),
      (0x03, ''f''), (0x04, ''h''), (0x05, ''g''),
      (0x06, ''z''), (0x07, ''x''), (0x08, ''c''),
      (0x09, ''v''), (0x0B, ''b''), (0x0C, ''q''),
      (0x0D, ''w''), (0x0E, ''e''), (0x0F, ''r''),
      (0x10, ''y''), (0x11, ''t''), (0x12, ''1''),
      (0x13, ''2''), (0x14, ''3''), (0x15, ''4''),
      (0x16, ''6''), (0x17, ''5''), (0x19, ''9''),
      (0x1A, ''7''), (0x1C, ''8''), (0x1D, ''0''),
      (0x1F, ''o''), (0x20, ''u''), (0x22, ''i''),
      (0x23, ''p''), (0x25, ''l''), (0x26, ''j''),
      (0x28, ''k''), (0x2D, ''n''), (0x2E, ''m''),
      (0x31, ''space''), (0x24, ''return''), (0x30, ''tab''),
      (0x33, ''backspace''), (0x35, ''escape'')]"

definition map_tm_length :: int where
  "map_tm_length = 0x36"

definition keycode_to_char_tm :: "64 word \<Rightarrow> string" where
  "keycode_to_char_tm kc =
     (case (if 0 \<le> sint kc \<and> sint kc < map_tm_length then map_of map_tm (nat (sint kc)) else None) of
        Some name \<Rightarrow> name
      | None \<Rightarrow> snprintf 8 (''0x'' @ fmt_02x (unat kc)))"

definition event_callback :: "'d tm_state \<Rightarrow> 32 word \<Rightarrow> 'd cg_event \<Rightarrow> error + 'd tm_state" where
  "event_callback s type ev =
     (if event_count s \<ge> MAX_EVENTS then Inr s
      else
        let ts_ms = cg_now_ms ev;
            event_ts_ms = cg_timestamp_ms ev;
            kc = cg_keycode ev;
            flags = cg_flags ev;
            autorepeat = cg_autorepeat ev;
            classified =
              (if type = kCGEventKeyDown then Some (''key_down'', s)
               else if type = kCGEventKeyUp then Some (''key_up'', s)
               else if type = kCGEventFlagsChanged then
                 (if 0 \<le> sint kc \<and> sint kc < 256 then
                    (if modifier_key_down_tm s (nat (sint kc)) \<noteq> 0
                     then Some (''key_up'',
                            s\<lparr>modifier_key_down_tm := (modifier_key_down_tm s)(nat (sint kc) := 0)\<rparr>)
                     else Some (''key_down'',
                            s\<lparr>modifier_key_down_tm := (modifier_key_down_tm s)(nat (sint kc) := 1)\<rparr>))
                  else Some (''flags_changed'', s))
               else None)
        in case classified of
             None \<Rightarrow> Inr s
           | Some (event_type_str, s1) \<Rightarrow>
               events_put s1
                 \<lparr>seq = int (event_count s1) + 1,
                  timestamp_ms = ts_ms,
                  event_timestamp_ms = event_ts_ms,
                  event_type = event_type_str,
                  keycode = sint (ucast kc :: 32 word),
                  scancode = 0,
                  character = strncpy (keycode_to_char_tm kc) 7,
                  modifiers = build_modifier_string_tm flags 64,
                  is_repeat = sint (ucast autorepeat :: 32 word)\<rparr>)"

text \<open>\<^verbatim>\<open>CFRunLoopStop(CFRunLoopGetMain())\<close> is recorded in \<open>run_loop_stopped\<close>.\<close>

definition signal_handler_tm :: "'d tm_state \<Rightarrow> int \<Rightarrow> 'd tm_state" where
  "signal_handler_tm s sig = s\<lparr>running_tm := 0, run_loop_stopped := True\<rparr>"

definition write_csv_tm :: "'d mac_env \<Rightarrow> string \<Rightarrow> 'd tm_state \<Rightarrow> 'd tm_state" where
  "write_csv_tm env path s = write_csv_mac ''terminal'' env path s"

text \<open>
  The loop of \<^verbatim>\<open>main\<close>:
  \<^verbatim>\<open>while (running) { CFRunLoopRunInMode(kCFRunLoopDefaultMode, 1.0, true); }\<close>.
  One element of the list below is one call of \<^verbatim>\<open>CFRunLoopRunInMode\<close>: the tap
  callbacks and signals that arrive during it. The loop has not returned (\<open>None\<close>) when
  \<^verbatim>\<open>running\<close> is still set and nothing more arrives.
\<close>

datatype 'd tm_stimulus = Tap "32 word" "'d cg_event" | Sig int

fun deliver_tm :: "'d tm_state \<Rightarrow> 'd tm_stimulus \<Rightarrow> error + 'd tm_state" where
  "deliver_tm s (Tap type ev) = event_callback s type ev"
| "deliver_tm s (Sig sig) = Inr (signal_handler_tm s sig)"

fun deliver_all_tm :: "'d tm_state \<Rightarrow> 'd tm_stimulus list \<Rightarrow> error + 'd tm_state" where
  "deliver_all_tm s [] = Inr s"
| "deliver_all_tm s (x # xs) =
     (case deliver_tm s x of Inl err \<Rightarrow> Inl err | Inr s' \<Rightarrow> deliver_all_tm s' xs)"

fun run_loop_tm :: "'d tm_state \<Rightarrow> 'd tm_stimulus list list \<Rightarrow> (error + 'd tm_state) option" where
  "run_loop_tm s [] = (if running_tm s \<noteq> 0 then None else Some (Inr s))"
| "run_loop_tm s (arrivals # rest) =
     (if running_tm s = 0 then Some (Inr s)
      else case deliver_all_tm s arrivals of
             Inl err \<Rightarrow> Some (Inl err)
           | Inr s' \<Rightarrow> run_loop_tm s' rest)"

definition tm_init :: "('d::zero) tm_state" where
  "tm_init =
     \<lparr>events = (\<lambda>_. zero_event), event_count = 0, io_log = [], running_tm = 1,
      modifier_key_down_tm = (\<lambda>_. 0), run_loop_stopped = False\<rparr>"

text \<open>
  \<^verbatim>\<open>main\<close>: the exit status and the final globals, when it returns. \<open>dir\<close> is what
  \<^verbatim>\<open>dirname(argv[0])\<close> returns, \<open>tap_created\<close> whether \<^verbatim>\<open>CGEventTapCreate\<close>
  gave a tap.
\<close>

definition main_tm ::
  "string list \<Rightarrow> string \<Rightarrow> bool \<Rightarrow> ('d::zero) mac_env \<Rightarrow> 'd tm_stimulus list list
   \<Rightarrow> (error + int \<times> 'd tm_state) option" where
  "main_tm argv dir tap_created env calls =
     (let path = (if length argv > 1 then argv ! 1
                  else snprintf 1024 (dir @ ''/../output/c_terminal_macos.csv''))
      in if \<not> tap_created then Some (Inr (1, tm_init))
         else case run_loop_tm tm_init calls of
                None \<Rightarrow> None
              | Some (Inl err) \<Rightarrow> Some (Inl err)
              | Some (Inr s) \<Rightarrow> Some (Inr (0, write_csv_tm env path s)))"

section \<open>Notions used in the statements and proofs\<close>

text \<open>
  How the buffer of a later state \<open>s'\<close> extends the buffer of \<open>s\<close>: the counter has not
  decreased, the records \<open>s\<close> had are untouched, every record added satisfies \<open>P\<close> (given
  its index), the counter stays within the array, and a full buffer is left as it is.
\<close>

definition appended ::
  "(nat \<Rightarrow> 'd KeyEvent \<Rightarrow> bool) \<Rightarrow> ('d, 'a) globals_scheme \<Rightarrow> ('d, 'b) globals_scheme \<Rightarrow> bool" where
  "appended P s s' \<longleftrightarrow>
     event_count s \<le> event_count s' \<and>
     (\<forall>i<event_count s. events s' i = events s i) \<and>
     (\<forall>i. event_count s \<le> i \<and> i < event_count s' \<longrightarrow> P i (events s' i)) \<and>
     (event_count s \<le> MAX_EVENTS \<longrightarrow> event_count s' \<le> MAX_EVENTS) \<and>
     (MAX_EVENTS \<le> event_count s \<longrightarrow> events s' = events s \<and> event_count s' = event_count s)"

text \<open>What holds of a record stored at index \<open>i\<close> by the hook of terminal\_windows.c.\<close>

definition new_tw :: "nat \<Rightarrow> 'd KeyEvent \<Rightarrow> bool" where
  "new_tw i e \<longleftrightarrow>
     seq e = int i + 1 \<and> event_type e \<in> {''key_down'', ''key_up''} \<and> is_repeat e = 0"

text \<open>
  The same for a record stored by one of the window programs, and by the event tap of
  terminal\_macos.c.
\<close>

definition new_rec :: "nat \<Rightarrow> 'd KeyEvent \<Rightarrow> bool" where
  "new_rec i e \<longleftrightarrow> seq e = int i + 1 \<and> event_type e \<in> {''key_down'', ''key_up''}"

definition new_tm :: "nat \<Rightarrow> 'd KeyEvent \<Rightarrow> bool" where
  "new_tm i e \<longleftrightarrow>
     seq e = int i + 1 \<and> event_type e \<in> {''key_down'', ''key_up'', ''flags_changed''}"

text \<open>The records in the buffer after a run (none if the run ended in an error).\<close>

definition recorded :: "error + ('d, 'z) globals_scheme \<Rightarrow> 'd KeyEvent list" where
  "recorded r = (case r of Inl err \<Rightarrow> [] | Inr s \<Rightarrow> snapshot s)"

text \<open>
  The modifier string in the words of the specification: the names of the modifiers held, in
  the order shift, ctrl, alt, meta, joined by \<open>+\<close>, and \<open>none\<close> when no modifier is held.
\<close>

fun join_plus :: "string list \<Rightarrow> string" where
  "join_plus [] = []"
| "join_plus [x] = x"
| "join_plus (x # y # ys) = x @ ''+'' @ join_plus (y # ys)"

definition modifiers_spec :: "string \<Rightarrow> bool \<Rightarrow> bool \<Rightarrow> bool \<Rightarrow> bool \<Rightarrow> string" where
  "modifiers_spec meta_name shift_held ctrl_held alt_held meta_held =
     (let held = (if shift_held then [''shift''] else []) @ (if ctrl_held then [''ctrl''] else []) @
                 (if alt_held then [''alt''] else []) @ (if meta_held then [meta_name] else [])
      in if held = [] then ''none'' else join_plus held)"

text \<open>
  Strings that can stand in a CSV file: without a newline, and without a comma as well. The
  line that \<^verbatim>\<open>write_csv\<close> prints for a record, and the header line, without the final
  newline.
\<close>

definition unbroken :: "string \<Rightarrow> bool" where
  "unbroken s \<longleftrightarrow> CHR 0x0A \<notin> set s"

definition plain :: "string \<Rightarrow> bool" where
  "plain s \<longleftrightarrow> CHR '','' \<notin> set s \<and> CHR 0x0A \<notin> set s"

definition unbroken_event :: "'d KeyEvent \<Rightarrow> bool" where
  "unbroken_event e \<longleftrightarrow> unbroken (event_type e) \<and> unbroken (character e) \<and> unbroken (modifiers e)"

definition plain_event :: "'d KeyEvent \<Rightarrow> bool" where
  "plain_event e \<longleftrightarrow> plain (event_type e) \<and> plain (character e) \<and> plain (modifiers e)"

definition comma_or_plain_event :: "'d KeyEvent \<Rightarrow> bool" where
  "comma_or_plain_event e \<longleftrightarrow>
     plain (event_type e) \<and> plain (modifiers e) \<and> (plain (character e) \<or> character e = '','')"

definition row_text :: "('d \<Rightarrow> string) \<Rightarrow> 'd KeyEvent \<Rightarrow> string" where
  "row_text f e = butlast (csv_row f e)"

definition header_text :: string where
  "header_text = butlast csv_header"

text \<open>
  Reading a written file back: its data rows are the lines after the five metadata lines and
  the header line; the \<open>event_type\<close> field of a row is its fourth field. The texts of the
  files a program has written so far, oldest first. A text whose data rows all have an
  event type from the set \<open>T\<close>, and a record that has one and no newline in its strings.
\<close>

definition data_rows :: "string \<Rightarrow> string list" where
  "data_rows text = drop 6 (lines_of text)"

definition event_type_field :: "string \<Rightarrow> string option" where
  "event_type_field line =
     (let fs = fields_of line in if 3 < length fs then Some (fs ! 3) else None)"

definition written_texts :: "file_io list \<Rightarrow> string list" where
  "written_texts log =
     concat (map (\<lambda>io. case io of Wrote path text \<Rightarrow> [text] | OpenFailed path \<Rightarrow> []) log)"

definition rows_typed :: "string set \<Rightarrow> string \<Rightarrow> bool" where
  "rows_typed T text \<longleftrightarrow> (\<forall>row\<in>set (data_rows text). event_type_field row \<in> Some ` T)"

definition typed_event :: "string set \<Rightarrow> 'd KeyEvent \<Rightarrow> bool" where
  "typed_event T e \<longleftrightarrow> unbroken_event e \<and> event_type e \<in> T"




subsection \<open>Concrete inputs\<close>

text \<open>
  The key A going down with the low-level hook: \<^verbatim>\<open>ToUnicode\<close> gives \<open>a\<close>, no modifier is
  held. In the second the flag \<^verbatim>\<open>LLKHF_UP\<close> is set as well.
\<close>

definition hook_a_down :: "int hook_call" where
  "hook_a_down =
     \<lparr>wParam = 0x100, qpc_ms = 10, event_time = 5000, ToUnicode_result = 1,
      ToUnicode_wchar0 = 0x61, key_state = (\<lambda>_. 0), nCode = 0, vkCode = 0x41,
      scanCode = 0x1E, kb_flags = 0\<rparr>"

definition hook_a_down_flagged :: "int hook_call" where
  "hook_a_down_flagged = hook_a_down\<lparr>kb_flags := 0x80\<rparr>"

text \<open>
  Environments for \<^verbatim>\<open>write_csv\<close>. The doubles of the concrete inputs are whole
  numbers, for which \<^verbatim>\<open>%.3f\<close> prints the integer followed by \<^verbatim>\<open>.000\<close>.
\<close>

definition win_env0 :: "int win_env" where
  "win_env0 =
     \<lparr>fopen_ok = True, time_str = ''2026-02-01T14:00:28.000000Z'',
      fmt_3f = (\<lambda>x. fmt_d x @ ''.000''), wProcessorArchitecture = 9\<rparr>"

definition mac_env0 :: "int mac_env" where
  "mac_env0 =
     \<lparr>fopen_ok = True, time_str = ''2026-02-01T14:00:28.000000Z'',
      fmt_3f = (\<lambda>x. fmt_d x @ ''.000''), platform_ver = ''26.2'', machine = ''arm64''\<rparr>"

text \<open>The key A going down in the window of gui\_windows.c (scan code \<open>0x1E\<close>).\<close>

definition wnd_a_down :: "int wnd_call" where
  "wnd_a_down =
     \<lparr>wParam = 0x41, qpc_ms = 10, event_time = 5000, ToUnicode_result = 1,
      ToUnicode_wchar0 = 0x61, key_state = (\<lambda>_. 0), msg = 0x100, lParam = 0x1E0001\<rparr>"

text \<open>
  Events of gui\_macos.m: the key A (keycode 0); the left shift key (keycode \<open>0x38\<close>) with
  the shift flag; a flags-changed event whose keycode is 256.
\<close>

definition ns_a :: "int ns_event" where
  "ns_a =
     \<lparr>keyCode = 0, modifierFlags = 0, isARepeat = False, ns_timestamp_ms = 5000,
      ns_now_ms = 10\<rparr>"

definition ns_shift :: "int ns_event" where
  "ns_shift =
     \<lparr>keyCode = 0x38, modifierFlags = 0x20000, isARepeat = False, ns_timestamp_ms = 5000,
      ns_now_ms = 10\<rparr>"

definition ns_high :: "int ns_event" where
  "ns_high = ns_shift\<lparr>keyCode := 0x100\<rparr>"

text \<open>The same two for the event tap of terminal\_macos.c.\<close>

definition cg_shift :: "int cg_event" where
  "cg_shift =
     \<lparr>cg_keycode = 0x38, cg_flags = 0x20000, cg_autorepeat = 0, cg_timestamp_ms = 5000,
      cg_now_ms = 10\<rparr>"

definition cg_high :: "int cg_event" where
  "cg_high = cg_shift\<lparr>cg_keycode := 0x100\<rparr>"

text \<open>Globals whose buffer is full.\<close>

definition tw_full :: "int tw_state" where
  "tw_full = tw_init\<lparr>event_count := MAX_EVENTS\<rparr>"

definition gw_full :: "int gw_state" where
  "gw_full = (gw_init '''')\<lparr>event_count := MAX_EVENTS\<rparr>"

definition gm_full :: "int gm_state" where
  "gm_full = (gm_init ''out.csv'')\<lparr>event_count := MAX_EVENTS\<rparr>"

definition tm_full :: "int tm_state" where
  "tm_full = tm_init\<lparr>event_count := MAX_EVENTS\<rparr>"

text \<open>The key Escape going down in the window of gui\_windows.c, and in that of gui\_macos.m.\<close>

definition wnd_escape :: "int wnd_call" where
  "wnd_escape = wnd_a_down\<lparr>wParam := 0x1B, ToUnicode_result := 0, lParam := 0x10001\<rparr>"

definition ns_escape :: "int ns_event" where
  "ns_escape = ns_a\<lparr>keyCode := 0x35\<rparr>"

text \<open>
  The key states when the left Windows key is held and nothing else
  (\<^verbatim>\<open>GetKeyState\<close> and \<^verbatim>\<open>GetAsyncKeyState\<close> set the high bit for a key that is down).
\<close>

definition only_win_held :: "32 word \<Rightarrow> 16 word" where
  "only_win_held vk = (if vk = VK_LWIN then 0x8000 else 0)"

text \<open>
  The comma key going down with the low-level hook (virtual key \<^verbatim>\<open>VK_OEM_COMMA = 0xBC\<close>,
  scan code \<open>0x33\<close>): \<^verbatim>\<open>ToUnicode\<close> gives a comma. The globals of terminal\_windows.c
  after this event and Ctrl+C.
\<close>

definition hook_comma_down :: "int hook_call" where
  "hook_comma_down = hook_a_down\<lparr>ToUnicode_wchar0 := 0x2C, vkCode := 0xBC, scanCode := 0x33\<rparr>"

definition tw_after_comma :: "int tw_state" where
  "tw_after_comma =
     tw_init\<lparr>events := (events tw_init)(0 :=
            \<lparr>seq = 1, timestamp_ms = 10, event_timestamp_ms = 5000,
             event_type = ''key_down'', keycode = 188, scancode = 51, character = '','',
             modifiers = ''none'', is_repeat = 0\<rparr>),
          event_count := 1, running := 0, quit_posted := True\<rparr>"

text \<open>
  The globals of terminal\_macos.c after a flags-changed event with keycode 256 (shift flag
  set) and a signal.
\<close>

definition tm_after_high :: "int tm_state" where
  "tm_after_high =
     tm_init\<lparr>events := (events tm_init)(0 :=
            \<lparr>seq = 1, timestamp_ms = 10, event_timestamp_ms = 5000,
             event_type = ''flags_changed'', keycode = 256, scancode = 0, character = ''0x100'',
             modifiers = ''shift'', is_repeat = 0\<rparr>),
          event_count := 1, running_tm := 0, run_loop_stopped := True\<rparr>"

section \<open>Properties of the buffer\<close>

lemma appended_refl: "appended P s s"
  by (auto simp: appended_def)

lemma appended_same:
  "events s' = events s \<Longrightarrow> event_count s' = event_count s \<Longrightarrow> appended P s s'"
  by (auto simp: appended_def)

lemma appended_trans:
  assumes "appended P s s1" and "appended P s1 s2"
  shows "appended P s s2"
  unfolding appended_def
proof (intro conjI allI impI)
  show "event_count s \<le> event_count s2"
    using assms by (auto simp: appended_def)
  show "events s2 i = events s i" if "i < event_count s" for i
    using assms that by (auto simp: appended_def)
  show "P i (events s2 i)" if "event_count s \<le> i \<and> i < event_count s2" for i
  proof (cases "i < event_count s1")
    case True
    with assms that show ?thesis by (auto simp: appended_def)
  next
    case False
    with assms that show ?thesis by (auto simp: appended_def)
  qed
  show "event_count s2 \<le> MAX_EVENTS" if "event_count s \<le> MAX_EVENTS"
    using assms that by (auto simp: appended_def)
  show "events s2 = events s" if "MAX_EVENTS \<le> event_count s"
    using assms that by (auto simp: appended_def)
  show "event_count s2 = event_count s" if "MAX_EVENTS \<le> event_count s"
    using assms that by (auto simp: appended_def)
qed

lemma appended_mono:
  "appended P s s' \<Longrightarrow> (\<And>i e. P i e \<Longrightarrow> Q i e) \<Longrightarrow> appended Q s s'"
  by (auto simp: appended_def)

lemma events_put_appended:
  assumes "events_put s e = Inr s'" and "P (event_count s) e"
  shows "appended P s s'"
  using assms
  by (auto simp: events_put_def appended_def le_less_Suc_eq split: if_splits)

subsection \<open>terminal\_windows.c\<close>

lemma keyboard_hook_total: "\<exists>s'. keyboard_hook s h = Inr s'"
  by (auto simp: keyboard_hook_def Let_def events_put_def)

lemma keyboard_hook_appended:
  assumes "keyboard_hook s h = Inr s'"
  shows "appended new_tw s s'"
  using assms
  by (auto simp: keyboard_hook_def Let_def new_tw_def split: if_splits
           intro: appended_refl events_put_appended)

lemma keyboard_hook_rest:
  assumes "keyboard_hook s h = Inr s'"
  shows "running s' = running s \<and> quit_posted s' = quit_posted s \<and> io_log s' = io_log s"
  using assms
  by (auto simp: keyboard_hook_def Let_def events_put_def split: if_splits)

lemma keyboard_hook_full:
  "MAX_EVENTS \<le> event_count s \<Longrightarrow> keyboard_hook s h = Inr s"
  by (simp add: keyboard_hook_def)

lemma run_keyboard_hook_appended:
  "\<exists>s'. run_keyboard_hook s hs = Inr s' \<and> appended new_tw s s' \<and>
        running s' = running s \<and> quit_posted s' = quit_posted s \<and> io_log s' = io_log s"
proof (induction hs arbitrary: s)
  case Nil
  show ?case by (simp add: appended_refl)
next
  case (Cons h hs)
  obtain s1 where s1: "keyboard_hook s h = Inr s1"
    using keyboard_hook_total by blast
  from Cons.IH [of s1] obtain s2 where s2: "run_keyboard_hook s1 hs = Inr s2"
    "appended new_tw s1 s2" "running s2 = running s1" "quit_posted s2 = quit_posted s1"
    "io_log s2 = io_log s1"
    by blast
  show ?case
    using s1 s2 keyboard_hook_appended [OF s1] keyboard_hook_rest [OF s1]
    by (auto intro: appended_trans)
qed

lemma write_csv_win_buffer [simp]:
  "events (write_csv_win mode env path s) = events s"
  "event_count (write_csv_win mode env path s) = event_count s"
  by (simp_all add: write_csv_win_def)

lemma write_csv_mac_buffer [simp]:
  "events (write_csv_mac mode env path s) = events s"
  "event_count (write_csv_mac mode env path s) = event_count s"
  by (simp_all add: write_csv_mac_def)

lemma write_csv_win_log:
  "\<exists>entry. io_log (write_csv_win mode env path s) = io_log s @ [entry]"
  by (simp add: write_csv_win_def)

lemma write_csv_mac_log:
  "\<exists>entry. io_log (write_csv_mac mode env path s) = io_log s @ [entry]"
  by (simp add: write_csv_mac_def)

subsection \<open>gui\_windows.c\<close>

lemma record_key_event_total: "\<exists>s'. record_key_event s m t = Inr s'"
  by (auto simp: record_key_event_def Let_def events_put_def)

lemma record_key_event_appended:
  assumes "record_key_event s m t = Inr s'"
  shows "appended (\<lambda>i e. seq e = int i + 1 \<and> event_type e = t) s s'"
  using assms
  by (auto simp: record_key_event_def Let_def split: if_splits
           intro: appended_refl events_put_appended)

lemma record_key_event_rest:
  assumes "record_key_event s m t = Inr s'"
  shows "io_log s' = io_log s \<and> output_path_gw s' = output_path_gw s \<and>
         quit_posted_gw s' = quit_posted_gw s"
  using assms
  by (auto simp: record_key_event_def Let_def events_put_def split: if_splits)

lemma record_key_event_full:
  "MAX_EVENTS \<le> event_count s \<Longrightarrow> record_key_event s m t = Inr s"
  by (simp add: record_key_event_def)

lemma wnd_proc_total: "\<exists>s'. wnd_proc env s m = Inr s'"
  using record_key_event_total by (auto simp: wnd_proc_def)

lemma wnd_proc_appended:
  assumes "wnd_proc env s m = Inr s'"
  shows "appended new_rec s s'"
proof -
  have a: "appended new_rec s s'" if "record_key_event s m t = Inr s'"
      and "t \<in> {''key_down'', ''key_up''}" for t
    using record_key_event_appended [OF that(1)] that(2)
    by (auto simp: appended_def new_rec_def)
  show ?thesis
    using assms a
    by (auto simp: wnd_proc_def write_csv_gw_def split: if_splits intro: appended_same appended_refl)
qed

lemma run_wnd_proc_appended:
  "\<exists>s'. run_wnd_proc env s ms = Inr s' \<and> appended new_rec s s'"
proof (induction ms arbitrary: s)
  case Nil
  show ?case by (simp add: appended_refl)
next
  case (Cons m ms)
  obtain s1 where s1: "wnd_proc env s m = Inr s1"
    using wnd_proc_total by blast
  from Cons.IH [of s1] obtain s2 where "run_wnd_proc env s1 ms = Inr s2" "appended new_rec s1 s2"
    by blast
  with s1 wnd_proc_appended [OF s1] show ?case
    by (auto intro: appended_trans)
qed

subsection \<open>gui\_macos.m\<close>

lemma record_event_total: "\<exists>s'. record_event s ev t = Inr s'"
  by (auto simp: record_event_def Let_def events_put_def)

lemma record_event_appended:
  assumes "record_event s ev t = Inr s'"
  shows "appended (\<lambda>i e. seq e = int i + 1 \<and> event_type e = t) s s'"
  using assms
  by (auto simp: record_event_def Let_def split: if_splits
           intro: appended_refl events_put_appended)

lemma record_event_full:
  "MAX_EVENTS \<le> event_count s \<Longrightarrow> record_event s ev t = Inr s"
  by (simp add: record_event_def)

lemma record_flags_changed_total: "\<exists>s'. record_flags_changed s ev = Inr s'"
  by (auto simp: record_flags_changed_def Let_def events_put_def)

lemma record_flags_changed_appended:
  assumes "record_flags_changed s ev = Inr s'"
  shows "appended new_rec s s'"
  using assms
  by (auto simp: record_flags_changed_def Let_def events_put_def appended_def new_rec_def
        le_less_Suc_eq split: if_splits)

lemma record_flags_changed_full:
  "MAX_EVENTS \<le> event_count s \<Longrightarrow> record_flags_changed s ev = Inr s"
  by (simp add: record_flags_changed_def)

lemma deliver_gm_total: "\<exists>s'. deliver_gm env s c = Inr s'"
  using record_event_total record_flags_changed_total
  by (cases c) (auto simp: keyDown_def keyUp_def flagsChanged_def)

lemma deliver_gm_appended:
  assumes "deliver_gm env s c = Inr s'"
  shows "appended new_rec s s'"
proof -
  have a: "appended new_rec s s'" if "record_event s ev t = Inr s'"
      and "t \<in> {''key_down'', ''key_up''}" for t ev
    using record_event_appended [OF that(1)] that(2)
    by (auto simp: appended_def new_rec_def)
  show ?thesis
    using assms a record_flags_changed_appended
    by (cases c)
       (auto simp: keyDown_def keyUp_def flagsChanged_def signal_handler_gm_def write_csv_gm_def
             split: if_splits intro: appended_same)
qed

lemma run_gm_appended:
  "\<exists>s'. run_gm env s cs = Inr s' \<and> appended new_rec s s'"
proof (induction cs arbitrary: s)
  case Nil
  show ?case by (simp add: appended_refl)
next
  case (Cons c cs)
  show ?case
  proof (cases "exited s")
    case True
    then show ?thesis by (simp add: appended_refl)
  next
    case False
    obtain s1 where s1: "deliver_gm env s c = Inr s1"
      using deliver_gm_total by blast
    from Cons.IH [of s1] obtain s2 where "run_gm env s1 cs = Inr s2" "appended new_rec s1 s2"
      by blast
    with s1 False deliver_gm_appended [OF s1] show ?thesis
      by (auto intro: appended_trans)
  qed
qed

subsection \<open>terminal\_macos.c\<close>

lemma event_callback_total: "\<exists>s'. event_callback s type ev = Inr s'"
  by (auto simp: event_callback_def Let_def events_put_def)

lemma event_callback_appended:
  assumes "event_callback s type ev = Inr s'"
  shows "appended new_tm s s'"
  using assms
  by (auto simp: event_callback_def Let_def events_put_def appended_def new_tm_def
        le_less_Suc_eq split: if_splits)

lemma event_callback_full:
  "MAX_EVENTS \<le> event_count s \<Longrightarrow> event_callback s type ev = Inr s"
  by (simp add: event_callback_def)

lemma event_callback_rest:
  assumes "event_callback s type ev = Inr s'"
  shows "io_log s' = io_log s \<and> running_tm s' = running_tm s \<and>
         run_loop_stopped s' = run_loop_stopped s"
  using assms
  by (auto simp: event_callback_def Let_def events_put_def split: if_splits)

lemma deliver_tm_total: "\<exists>s'. deliver_tm s x = Inr s'"
  using event_callback_total by (cases x) auto

lemma deliver_tm_appended:
  assumes "deliver_tm s x = Inr s'"
  shows "appended new_tm s s' \<and> io_log s' = io_log s"
proof (cases x)
  case (Tap type ev)
  with assms have "event_callback s type ev = Inr s'" by simp
  then show ?thesis
    using event_callback_appended event_callback_rest by blast
next
  case (Sig sig)
  with assms show ?thesis
    by (auto simp: signal_handler_tm_def intro: appended_same)
qed

lemma deliver_all_tm_appended:
  "\<exists>s'. deliver_all_tm s xs = Inr s' \<and> appended new_tm s s' \<and> io_log s' = io_log s"
proof (induction xs arbitrary: s)
  case Nil
  show ?case by (simp add: appended_refl)
next
  case (Cons x xs)
  obtain s1 where s1: "deliver_tm s x = Inr s1"
    using deliver_tm_total by blast
  from Cons.IH [of s1] obtain s2 where "deliver_all_tm s1 xs = Inr s2" "appended new_tm s1 s2"
    "io_log s2 = io_log s1"
    by blast
  with s1 deliver_tm_appended [OF s1] show ?case
    by (auto intro: appended_trans)
qed

lemma new_tw_rec: "new_tw i e \<Longrightarrow> new_rec i e"
  by (simp add: new_tw_def new_rec_def)

lemma appended_seq:
  assumes "appended P s s'" and "event_count s = 0" and "\<And>i e. P i e \<Longrightarrow> seq e = int i + 1"
  shows "map seq (snapshot s') = map int [1..<Suc (event_count s')]"
proof -
  have "map seq (snapshot s') = map (\<lambda>i. int (Suc i)) [0..<event_count s']"
    using assms by (auto simp: snapshot_def appended_def)
  also have "\<dots> = map int (map Suc [0..<event_count s'])"
    by simp
  also have "map Suc [0..<event_count s'] = [1..<Suc (event_count s')]"
    by (simp only: map_Suc_upt One_nat_def)
  finally show ?thesis .
qed

lemma appended_types:
  assumes "appended P s s'" and "event_count s = 0" and "\<And>i e. P i e \<Longrightarrow> event_type e \<in> T"
  shows "\<forall>e\<in>set (snapshot s'). event_type e \<in> T"
  using assms by (auto simp: snapshot_def appended_def)

lemma init_counts [simp]:
  "event_count tw_init = 0" "event_count (gw_init cmd) = 0" "event_count (gm_init path) = 0"
  "event_count tm_init = 0"
  by (simp_all add: tw_init_def gw_init_def gm_init_def tm_init_def)

lemma run_keyboard_hook_full:
  "MAX_EVENTS \<le> event_count s \<Longrightarrow> run_keyboard_hook s hs = Inr s"
  by (induction hs) (simp_all add: keyboard_hook_full)

lemma deliver_all_tm_taps_full:
  "MAX_EVENTS \<le> event_count s \<Longrightarrow> deliver_all_tm s (map (\<lambda>(t, ev). Tap t ev) taps) = Inr s"
  by (induction taps) (auto simp: event_callback_full)

lemma event_callback_in_range:
  assumes "event_callback s type ev = Inr s'"
    and "type = kCGEventFlagsChanged \<longrightarrow> 0 \<le> sint (cg_keycode ev) \<and> sint (cg_keycode ev) < 256"
  shows "appended new_rec s s'"
  using assms
  by (auto simp: event_callback_def Let_def events_put_def appended_def new_rec_def
        le_less_Suc_eq split: if_splits)

lemma deliver_all_tm_in_range:
  assumes "\<forall>type ev. Tap type ev \<in> set xs \<and> type = kCGEventFlagsChanged \<longrightarrow>
             0 \<le> sint (cg_keycode ev) \<and> sint (cg_keycode ev) < 256"
  shows "\<exists>s'. deliver_all_tm s xs = Inr s' \<and> appended new_rec s s'"
  using assms
proof (induction xs arbitrary: s)
  case Nil
  show ?case by (simp add: appended_refl)
next
  case (Cons x xs)
  obtain s1 where s1: "deliver_tm s x = Inr s1"
    using deliver_tm_total by blast
  have step: "appended new_rec s s1"
  proof (cases x)
    case (Tap type ev)
    with s1 Cons.prems show ?thesis
      by (auto intro: event_callback_in_range)
  next
    case (Sig sig)
    with s1 show ?thesis
      by (auto simp: signal_handler_tm_def intro: appended_same)
  qed
  from Cons.prems have "\<forall>type ev. Tap type ev \<in> set xs \<and> type = kCGEventFlagsChanged \<longrightarrow>
             0 \<le> sint (cg_keycode ev) \<and> sint (cg_keycode ev) < 256"
    by auto
  from Cons.IH [OF this, of s1] obtain s2 where "deliver_all_tm s1 xs = Inr s2"
    "appended new_rec s1 s2"
    by blast
  with s1 step show ?case
    by (auto intro: appended_trans)
qed

lemmas eval_defs =
  keyboard_hook_def record_key_event_def wnd_proc_def record_event_def record_flags_changed_def
  keyDown_def keyUp_def flagsChanged_def event_callback_def events_put_def
  tw_init_def gw_init_def gm_init_def tm_init_def MAX_EVENTS_def recorded_def snapshot_def
  hook_a_down_def hook_a_down_flagged_def wnd_a_down_def ns_a_def ns_shift_def ns_high_def
  cg_shift_def cg_high_def
  WM_KEYDOWN_def WM_SYSKEYDOWN_def WM_KEYUP_def WM_SYSKEYUP_def WM_PAINT_def WM_DESTROY_def
  VK_ESCAPE_def kCGEventFlagsChanged_def kCGEventKeyDown_def kCGEventKeyUp_def Let_def

lemma recorded_tw_example:
  "length (recorded (run_keyboard_hook tw_init [hook_a_down, hook_a_down_flagged])) = 2"
  by (simp add: eval_defs)

lemma recorded_gw_example:
  "length (recorded (run_wnd_proc win_env0 (gw_init '''') [wnd_a_down, wnd_a_down])) = 2"
  by (simp add: eval_defs)

lemma recorded_gm_example:
  "length (recorded (run_gm mac_env0 (gm_init ''out.csv'') [KeyDown ns_a, FlagsChanged ns_shift])) = 2"
  by (simp add: eval_defs)

lemma recorded_tm_example:
  "length (recorded (deliver_all_tm tm_init
      [Tap kCGEventFlagsChanged cg_shift, Tap kCGEventFlagsChanged cg_shift])) = 2"
  by (simp add: eval_defs)

lemma hd_recorded:
  "r = Inr s' \<Longrightarrow> length (recorded r) = 2 \<Longrightarrow> hd (recorded r) \<in> set (snapshot s')"
  by (cases "recorded r") (auto simp: recorded_def)

subsection \<open>Toggles, tokens, the CSV text, the flush\<close>

lemma run_gm_exited: "exited s \<Longrightarrow> run_gm env s cs = Inr s"
  by (cases cs) simp_all

lemma deliver_gm_full:
  assumes "MAX_EVENTS \<le> event_count s"
  shows "\<exists>s'. deliver_gm env s c = Inr s' \<and> events s' = events s \<and>
              event_count s' = event_count s \<and> modifier_key_down s' = modifier_key_down s"
  using assms
  by (cases c)
     (auto simp: keyDown_def keyUp_def flagsChanged_def signal_handler_gm_def write_csv_gm_def
        write_csv_mac_def record_event_full record_flags_changed_full)

lemma record_flags_changed_toggle:
  assumes "event_count s < MAX_EVENTS" and "keyCode ev < 256"
  shows "\<exists>s'. record_flags_changed s ev = Inr s' \<and>
           event_count s' = Suc (event_count s) \<and>
           (\<forall>i<event_count s. events s' i = events s i) \<and>
           event_type (events s' (event_count s)) =
             (if modifier_key_down s (unat (keyCode ev)) \<noteq> 0 then ''key_up'' else ''key_down'') \<and>
           modifier_key_down s' =
             (modifier_key_down s)
               (unat (keyCode ev) := (if modifier_key_down s (unat (keyCode ev)) \<noteq> 0 then 0 else 1))"
  using assms
  by (auto simp: record_flags_changed_def Let_def events_put_def)

lemma event_callback_toggle:
  assumes "event_count s < MAX_EVENTS" and "0 \<le> sint (cg_keycode ev)" and "sint (cg_keycode ev) < 256"
  shows "\<exists>s'. event_callback s kCGEventFlagsChanged ev = Inr s' \<and>
           event_count s' = Suc (event_count s) \<and>
           (\<forall>i<event_count s. events s' i = events s i) \<and>
           event_type (events s' (event_count s)) =
             (if modifier_key_down_tm s (nat (sint (cg_keycode ev))) \<noteq> 0
              then ''key_up'' else ''key_down'') \<and>
           modifier_key_down_tm s' =
             (modifier_key_down_tm s)
               (nat (sint (cg_keycode ev)) :=
                  (if modifier_key_down_tm s (nat (sint (cg_keycode ev))) \<noteq> 0 then 0 else 1))"
  using assms
  by (auto simp: event_callback_def Let_def events_put_def kCGEventFlagsChanged_def
        kCGEventKeyDown_def kCGEventKeyUp_def)

lemma add_modifier_64:
  "length buf + length name + 2 \<le> 64 \<Longrightarrow>
   add_modifier name 64 (buf, first) = ((if first then buf else buf @ ''+'') @ name, False)"
  by (auto simp: add_modifier_def strncat_def Let_def)

lemma build_modifier_string_gm_spec:
  "build_modifier_string_gm flags 64 =
     modifiers_spec ''cmd'' (flags AND NSEventModifierFlagShift \<noteq> 0)
       (flags AND NSEventModifierFlagControl \<noteq> 0) (flags AND NSEventModifierFlagOption \<noteq> 0)
       (flags AND NSEventModifierFlagCommand \<noteq> 0)"
  by (cases "flags AND NSEventModifierFlagShift = 0"; cases "flags AND NSEventModifierFlagControl = 0";
      cases "flags AND NSEventModifierFlagOption = 0"; cases "flags AND NSEventModifierFlagCommand = 0")
     (simp_all add: build_modifier_string_gm_def modifiers_spec_def add_modifier_64 strncat_def
        strncpy_def)

lemma build_modifier_string_tm_spec:
  "build_modifier_string_tm flags 64 =
     modifiers_spec ''cmd'' (flags AND kCGEventFlagMaskShift \<noteq> 0)
       (flags AND kCGEventFlagMaskControl \<noteq> 0) (flags AND kCGEventFlagMaskAlternate \<noteq> 0)
       (flags AND kCGEventFlagMaskCommand \<noteq> 0)"
  by (cases "flags AND kCGEventFlagMaskShift = 0"; cases "flags AND kCGEventFlagMaskControl = 0";
      cases "flags AND kCGEventFlagMaskAlternate = 0"; cases "flags AND kCGEventFlagMaskCommand = 0")
     (simp_all add: build_modifier_string_tm_def modifiers_spec_def add_modifier_64 strncat_def
        strncpy_def)

lemma build_modifier_string_win_spec:
  "build_modifier_string_win ks 64 =
     modifiers_spec ''win'' (ks VK_SHIFT AND 0x8000 \<noteq> 0) (ks VK_CONTROL AND 0x8000 \<noteq> 0)
       (ks VK_MENU AND 0x8000 \<noteq> 0) False"
  by (cases "ks VK_SHIFT AND 0x8000 = 0"; cases "ks VK_CONTROL AND 0x8000 = 0";
      cases "ks VK_MENU AND 0x8000 = 0")
     (simp_all add: build_modifier_string_win_def modifiers_spec_def add_modifier_64 strncat_def
        strncpy_def)

lemma hex_digits_nonempty: "hex_digits n \<noteq> []"
  by (subst hex_digits.simps) simp

lemma hex_digits_length: "n < 16 ^ k \<Longrightarrow> 0 < k \<Longrightarrow> length (hex_digits n) \<le> k"
proof (induction n arbitrary: k rule: hex_digits.induct)
  case (1 n)
  show ?case
  proof (cases "n < 16")
    case True
    have "hex_digits n = [''0123456789abcdef'' ! n]"
      using True by (subst hex_digits.simps) simp
    with "1.prems" show ?thesis by simp
  next
    case False
    obtain j where k: "k = Suc j"
      using "1.prems"(2) by (cases k) auto
    have j: "0 < j"
    proof (rule ccontr)
      assume "\<not> 0 < j"
      with k "1.prems"(1) have "n < 16" by simp
      with False show False by simp
    qed
    have "n < 16 ^ j * 16"
      using "1.prems"(1) k by (simp add: mult.commute)
    then have small: "n div 16 < 16 ^ j"
      by (rule less_mult_imp_div_less)
    have ih: "length (hex_digits (n div 16)) \<le> j"
      using "1.IH" [OF False small j] .
    have "hex_digits n = hex_digits (n div 16) @ [''0123456789abcdef'' ! (n mod 16)]"
      using False by (subst hex_digits.simps) simp
    with ih k show ?thesis by simp
  qed
qed

lemma fmt_02x_length: "n < 16 ^ k \<Longrightarrow> 2 \<le> k \<Longrightarrow> length (fmt_02x n) \<le> k"
  using hex_digits_length [of n k] by (auto simp: fmt_02x_def Let_def)

lemma fmt_02x_nonempty: "fmt_02x n \<noteq> []"
  by (simp add: fmt_02x_def Let_def hex_digits_nonempty)

lemma vk_fallback_fits: "snprintf 16 (''vk_0x'' @ fmt_02x (unat (vk :: 32 word))) = ''vk_0x'' @ fmt_02x (unat vk)"
proof -
  have "unat vk < 16 ^ 8"
    using unsigned_less [of vk, where 'a = nat] by simp
  then have "length (fmt_02x (unat vk)) \<le> 8"
    by (rule fmt_02x_length) simp
  then show ?thesis by (simp add: snprintf_def)
qed

lemma keycode_fallback_fits:
  "snprintf 8 (''0x'' @ fmt_02x (unat (kc :: 16 word))) = ''0x'' @ fmt_02x (unat kc)"
proof -
  have "unat kc < 16 ^ 4"
    using unsigned_less [of kc, where 'a = nat] by simp
  then have "length (fmt_02x (unat kc)) \<le> 4"
    by (rule fmt_02x_length) simp
  then show ?thesis by (simp add: snprintf_def)
qed

lemma printable_char:
  assumes "32 \<le> (w :: 16 word)" and "w < 127"
  shows "32 \<le> (of_char (char_of (unat w)) :: nat) \<and> (of_char (char_of (unat w)) :: nat) < 127"
proof -
  have "32 \<le> unat w" "unat w < 127"
    using assms by (simp_all add: word_le_nat_alt word_less_nat_alt)
  then show ?thesis by simp
qed



lemma map_of_in_snd: "map_of tbl k = Some v \<Longrightarrow> v \<in> snd ` set tbl"
  by (force dest: map_of_SomeD)

lemma vk_to_char_tw_forms:
  "(\<exists>c. vk_to_char_tw result wchar0 vk = [c] \<and> 32 \<le> (of_char c :: nat) \<and> (of_char c :: nat) < 127) \<or>
   vk_to_char_tw result wchar0 vk \<in> snd ` set named_keys_tw \<or>
   vk_to_char_tw result wchar0 vk = ''vk_0x'' @ fmt_02x (unat vk)"
  using printable_char [of wchar0]
  by (auto simp: vk_to_char_tw_def vk_fallback_fits [simplified] split: option.splits
      dest: map_of_in_snd)

lemma keycode_to_char_gm_forms:
  "keycode_to_char_gm kc \<in> snd ` set map_gm \<or>
   keycode_to_char_gm kc = ''0x'' @ fmt_02x (unat kc)"
  by (auto simp: keycode_to_char_gm_def keycode_fallback_fits [simplified]
      split: option.splits if_splits dest: map_of_in_snd)

lemma comma_main:
  "main_tw [''terminal_windows.exe''] True win_env0
      [([Hook hook_comma_down, Ctrl CTRL_C_EVENT], True)] =
   Some (Inr (0, write_csv_tw win_env0 DEFAULT_OUTPUT_tw tw_after_comma))"
  by (simp add: main_tw_def console_handler_def CTRL_C_EVENT_def tw_after_comma_def
      keyboard_hook_def hook_comma_down_def hook_a_down_def tw_init_def events_put_def
      MAX_EVENTS_def WM_KEYDOWN_def Let_def vk_to_char_tw_def strncpy_def char_of_def bit_0 bit_Suc
      build_modifier_string_win_def)

lemma comma_row:
  "csv_row (\<lambda>x. fmt_d x @ ''.000'') (events tw_after_comma 0) =
   ''1,10.000,5000.000,key_down,188,51,,,none,0'' @ newline"
  by (simp add: tw_after_comma_def csv_row_def fmt_d_def dec_digits.simps)

lemma comma_fields:
  "length (fields_of ''1,10.000,5000.000,key_down,188,51,,,none,0'') = 10"
  by (simp add: fields_of_def)

lemma split_on_line: "c \<notin> set l \<Longrightarrow> split_on c (l @ c # rest) = l # split_on c rest"
  by (induction l) auto

lemma split_on_lines:
  "\<forall>l\<in>set ls. c \<notin> set l \<Longrightarrow> split_on c (concat (map (\<lambda>l. l @ [c]) ls)) = ls @ [[]]"
  by (induction ls) (simp_all add: split_on_line)

lemma lines_of_lines:
  "\<forall>l\<in>set ls. CHR 0x0A \<notin> set l \<Longrightarrow> lines_of (concat (map (\<lambda>l. l @ newline) ls)) = ls"
  by (simp add: lines_of_def newline_def split_on_lines)

lemma comma_text:
  "csv_text_win ''terminal'' win_env0 tw_after_comma =
   concat (map (\<lambda>l. l @ newline)
     [''# platform=Windows-x86_64'', ''# language=c'', ''# mode=terminal'',
      ''# clock_source=QueryPerformanceCounter'',
      ''# start_time_utc=2026-02-01T14:00:28.000000Z'',
      ''seq,timestamp_ms,event_timestamp_ms,event_type,keycode,scancode,character,modifiers,is_repeat'',
      ''1,10.000,5000.000,key_down,188,51,,,none,0''])"
proof -
  have "snapshot tw_after_comma = [events tw_after_comma 0]"
    by (simp add: snapshot_def tw_after_comma_def)
  then show ?thesis
    by (simp add: csv_text_win_def csv_table_def csv_header_def comma_row win_env0_def
        arch_name_def PROCESSOR_ARCHITECTURE_AMD64_def)
qed

lemma comma_lines:
  "lines_of (csv_text_win ''terminal'' win_env0 tw_after_comma) =
     [''# platform=Windows-x86_64'', ''# language=c'', ''# mode=terminal'',
      ''# clock_source=QueryPerformanceCounter'',
      ''# start_time_utc=2026-02-01T14:00:28.000000Z'',
      ''seq,timestamp_ms,event_timestamp_ms,event_type,keycode,scancode,character,modifiers,is_repeat'',
      ''1,10.000,5000.000,key_down,188,51,,,none,0'']"
  unfolding comma_text by (rule lines_of_lines) simp

lemma write_csv_tw_once:
  "\<exists>entry. io_log (write_csv_tw env path s) = io_log s @ [entry]"
  by (simp add: write_csv_tw_def write_csv_win_log)

lemma write_csv_tm_once:
  "\<exists>entry. io_log (write_csv_tm env path s) = io_log s @ [entry]"
  by (simp add: write_csv_tm_def write_csv_mac_log)

lemma console_handler_effect:
  "events (fst (console_handler s type)) = events s \<and>
   event_count (fst (console_handler s type)) = event_count s \<and>
   io_log (fst (console_handler s type)) = io_log s"
  by (simp add: console_handler_def)

lemma deliver_tw_log: "\<exists>s'. deliver_tw s x = Inr s' \<and> io_log s' = io_log s"
proof (cases x)
  case (Hook h)
  obtain s' where "keyboard_hook s h = Inr s'"
    using keyboard_hook_total by blast
  with Hook keyboard_hook_rest [of s h s'] show ?thesis by simp
next
  case (Ctrl type)
  then show ?thesis by (simp add: console_handler_effect)
qed

lemma deliver_all_tw_log: "\<exists>s'. deliver_all_tw s xs = Inr s' \<and> io_log s' = io_log s"
proof (induction xs arbitrary: s)
  case Nil
  show ?case by simp
next
  case (Cons x xs)
  obtain s1 where s1: "deliver_tw s x = Inr s1" "io_log s1 = io_log s"
    using deliver_tw_log by blast
  from Cons.IH [of s1] s1 show ?case by auto
qed

lemma message_loop_tw_log:
  "message_loop_tw s calls = Some r \<Longrightarrow> \<exists>s'. r = Inr s' \<and> io_log s' = io_log s"
proof (induction calls arbitrary: s)
  case Nil
  then show ?case by (auto split: if_splits)
next
  case (Cons call calls)
  obtain arrivals got where call: "call = (arrivals, got)"
    by (cases call)
  obtain s1 where s1: "deliver_all_tw s arrivals = Inr s1" "io_log s1 = io_log s"
    using deliver_all_tw_log by blast
  show ?case
  proof (cases "running s = 0")
    case True
    with Cons.prems call show ?thesis by auto
  next
    case False
    show ?thesis
    proof (cases got)
      case True
      with Cons.prems call s1 False have "message_loop_tw s1 calls = Some r" by simp
      from Cons.IH [OF this] s1 show ?thesis by simp
    next
      case g: False
      with Cons.prems call s1 False show ?thesis by auto
    qed
  qed
qed

lemma main_tw_flush:
  assumes "main_tw argv True env calls = Some r"
  shows "\<exists>s_end entry.
           message_loop_tw tw_init calls = Some (Inr s_end) \<and> io_log s_end = [] \<and>
           r = Inr (0, write_csv_tw env
                         (if length argv > 1 then argv ! 1 else DEFAULT_OUTPUT_tw) s_end) \<and>
           io_log (write_csv_tw env
                     (if length argv > 1 then argv ! 1 else DEFAULT_OUTPUT_tw) s_end) = [entry]"
proof -
  from assms obtain r0 where r0: "message_loop_tw tw_init calls = Some r0"
    by (auto simp: main_tw_def Let_def split: option.splits)
  from message_loop_tw_log [OF r0] obtain s_end where s_end: "r0 = Inr s_end" "io_log s_end = []"
    by (auto simp: tw_init_def)
  from assms r0 s_end
  have "r = Inr (0, write_csv_tw env (if length argv > 1 then argv ! 1 else DEFAULT_OUTPUT_tw) s_end)"
    by (simp add: main_tw_def Let_def)
  with r0 s_end write_csv_tw_once [of env "if length argv > 1 then argv ! 1 else DEFAULT_OUTPUT_tw" s_end]
  show ?thesis by auto
qed


lemma run_loop_tm_log:
  "run_loop_tm s calls = Some r \<Longrightarrow> \<exists>s'. r = Inr s' \<and> io_log s' = io_log s"
proof (induction calls arbitrary: s)
  case Nil
  then show ?case by (auto split: if_splits)
next
  case (Cons arrivals calls)
  obtain s1 where s1: "deliver_all_tm s arrivals = Inr s1" "io_log s1 = io_log s"
    using deliver_all_tm_appended by blast
  show ?case
  proof (cases "running_tm s = 0")
    case True
    with Cons.prems show ?thesis by auto
  next
    case False
    with Cons.prems s1 have "run_loop_tm s1 calls = Some r" by simp
    from Cons.IH [OF this] s1 show ?thesis by simp
  qed
qed

lemma main_tm_flush:
  assumes "main_tm argv dir True env calls = Some r"
  shows "\<exists>s_end entry.
           run_loop_tm tm_init calls = Some (Inr s_end) \<and> io_log s_end = [] \<and>
           r = Inr (0, write_csv_tm env
                         (if length argv > 1 then argv ! 1
                          else snprintf 1024 (dir @ ''/../output/c_terminal_macos.csv'')) s_end) \<and>
           io_log (write_csv_tm env
                     (if length argv > 1 then argv ! 1
                      else snprintf 1024 (dir @ ''/../output/c_terminal_macos.csv'')) s_end) = [entry]"
proof -
  let ?path = "if length argv > 1 then argv ! 1
               else snprintf 1024 (dir @ ''/../output/c_terminal_macos.csv'')"
  from assms obtain r0 where r0: "run_loop_tm tm_init calls = Some r0"
    by (auto simp: main_tm_def Let_def split: option.splits)
  from run_loop_tm_log [OF r0] obtain s_end where s_end: "r0 = Inr s_end" "io_log s_end = []"
    by (auto simp: tm_init_def)
  from assms r0 s_end have "r = Inr (0, write_csv_tm env ?path s_end)"
    by (simp add: main_tm_def Let_def)
  with r0 s_end write_csv_tm_once [of env ?path s_end]
  show ?thesis by auto
qed


lemma record_event_log:
  "record_event s ev t = Inr s' \<Longrightarrow> io_log s' = io_log s \<and> exited s' = exited s"
  by (auto simp: record_event_def Let_def events_put_def split: if_splits)

lemma record_flags_changed_log:
  "record_flags_changed s ev = Inr s' \<Longrightarrow> io_log s' = io_log s \<and> exited s' = exited s"
  by (auto simp: record_flags_changed_def Let_def events_put_def split: if_splits)




lemma vk_to_char_gw_forms:
  "(\<exists>c. vk_to_char_gw result wchar0 vk = [c] \<and> 32 \<le> (of_char c :: nat) \<and> (of_char c :: nat) < 127) \<or>
   vk_to_char_gw result wchar0 vk \<in> snd ` set named_keys_gw \<or>
   vk_to_char_gw result wchar0 vk = ''vk_0x'' @ fmt_02x (unat vk)"
  using printable_char [of wchar0]
  by (auto simp: vk_to_char_gw_def vk_fallback_fits [simplified] split: option.splits
      dest: map_of_in_snd)

lemma keycode_to_char_tm_forms:
  "keycode_to_char_tm kc \<in> snd ` set map_tm \<or>
   keycode_to_char_tm kc = take 7 (''0x'' @ fmt_02x (unat kc))"
  by (auto simp: keycode_to_char_tm_def snprintf_def split: option.splits if_splits
      dest: map_of_in_snd)













subsection \<open>Lines and fields of the CSV text\<close>

lemma plain_unbroken: "plain s \<Longrightarrow> unbroken s"
  by (simp add: plain_def unbroken_def)

lemma plain_append [simp]: "plain (a @ b) \<longleftrightarrow> plain a \<and> plain b"
  by (auto simp: plain_def)

lemma unbroken_append [simp]: "unbroken (a @ b) \<longleftrightarrow> unbroken a \<and> unbroken b"
  by (auto simp: unbroken_def)

lemma plain_take: "plain s \<Longrightarrow> plain (take n s)"
  by (auto simp: plain_def dest: in_set_takeD)

lemma unbroken_take: "unbroken s \<Longrightarrow> unbroken (take n s)"
  by (auto simp: unbroken_def dest: in_set_takeD)

lemma split_on_nonempty: "split_on c s \<noteq> []"
  by (induction s) (auto split: list.splits)

lemma length_split_on: "length (split_on c s) = Suc (count_list s c)"
proof (induction s)
  case Nil
  show ?case by simp
next
  case (Cons x xs)
  obtain p ps where "split_on c xs = p # ps"
    using split_on_nonempty [of c xs] by (cases "split_on c xs") auto
  with Cons show ?case by auto
qed

lemma fields_plain: "plain s \<Longrightarrow> length (fields_of s) = 1"
  by (simp add: fields_of_def length_split_on plain_def)

lemma dec_digits_plain: "plain (dec_digits n)"
proof (induction n rule: dec_digits.induct)
  case (1 n)
  have digit: "plain [''0123456789'' ! k]" if "k < 10" for k
  proof -
    from that have "''0123456789'' ! k \<in> set ''0123456789''"
      by (intro nth_mem) simp
    then show ?thesis by (auto simp: plain_def)
  qed
  show ?case
  proof (cases "n < 10")
    case True
    then show ?thesis
      by (subst dec_digits.simps) (simp add: digit)
  next
    case False
    with "1.IH" show ?thesis
      by (subst dec_digits.simps) (simp add: digit)
  qed
qed

lemma fmt_d_plain: "plain (fmt_d i)"
  using dec_digits_plain by (auto simp: fmt_d_def plain_def)

lemma hex_digits_plain: "plain (hex_digits n)"
proof (induction n rule: hex_digits.induct)
  case (1 n)
  have digit: "plain [''0123456789abcdef'' ! k]" if "k < 16" for k
  proof -
    from that have "''0123456789abcdef'' ! k \<in> set ''0123456789abcdef''"
      by (intro nth_mem) simp
    then show ?thesis by (auto simp: plain_def)
  qed
  show ?case
  proof (cases "n < 16")
    case True
    then show ?thesis
      by (subst hex_digits.simps) (simp add: digit)
  next
    case False
    with "1.IH" show ?thesis
      by (subst hex_digits.simps) (simp add: digit)
  qed
qed

lemma fmt_02x_plain: "plain (fmt_02x n)"
  using hex_digits_plain [of n] by (auto simp: fmt_02x_def Let_def plain_def)

lemma modifiers_spec_plain: "plain meta_name \<Longrightarrow> plain (modifiers_spec meta_name a b c d)"
  by (cases a; cases b; cases c; cases d) (auto simp: modifiers_spec_def plain_def)

lemma build_modifier_string_plain:
  "plain (build_modifier_string_win ks 64)" "plain (build_modifier_string_gm flags 64)"
  "plain (build_modifier_string_tm flags 64)"
proof -
  have names: "plain ''win''" "plain ''cmd''"
    by (simp_all add: plain_def)
  show "plain (build_modifier_string_win ks 64)" "plain (build_modifier_string_gm flags 64)"
    "plain (build_modifier_string_tm flags 64)"
    by (simp_all only: build_modifier_string_win_spec build_modifier_string_gm_spec
        build_modifier_string_tm_spec modifiers_spec_plain names)
qed

lemma keycode_to_char_gm_plain: "plain (keycode_to_char_gm kc)"
proof -
  have "plain name" if "name \<in> snd ` set map_gm" for name
    using that by (auto simp: map_gm_def plain_def)
  moreover have "plain (''0x'' @ fmt_02x (unat kc))"
    using fmt_02x_plain [of "unat kc"] by (simp add: plain_def)
  ultimately show ?thesis
    using keycode_to_char_gm_forms [of kc] by auto
qed

lemma keycode_to_char_tm_plain: "plain (keycode_to_char_tm kc)"
proof -
  have "plain name" if "name \<in> snd ` set map_tm" for name
    using that by (auto simp: map_tm_def plain_def)
  moreover have "plain (''0x'' @ fmt_02x (unat kc))"
    using fmt_02x_plain [of "unat kc"] by (simp add: plain_def)
  then have "plain (take 7 (''0x'' @ fmt_02x (unat kc)))"
    by (rule plain_take)
  ultimately show ?thesis
    using keycode_to_char_tm_forms [of kc] by auto
qed

lemma printable_unbroken:
  "32 \<le> (of_char c :: nat) \<Longrightarrow> unbroken [c]"
  by (auto simp: unbroken_def)

lemma vk_to_char_tw_unbroken: "unbroken (vk_to_char_tw result wchar0 vk)"
proof -
  have "unbroken name" if "name \<in> snd ` set named_keys_tw" for name
    using that by (auto simp: named_keys_tw_def unbroken_def)
  moreover have "unbroken (''vk_0x'' @ fmt_02x (unat vk))"
    using fmt_02x_plain [of "unat vk"] by (simp add: plain_def unbroken_def)
  ultimately show ?thesis
    using vk_to_char_tw_forms [of result wchar0 vk] printable_unbroken by auto
qed

lemma vk_to_char_gw_unbroken: "unbroken (vk_to_char_gw result wchar0 vk)"
proof -
  have "unbroken name" if "name \<in> snd ` set named_keys_gw" for name
    using that by (auto simp: named_keys_gw_def unbroken_def)
  moreover have "unbroken (''vk_0x'' @ fmt_02x (unat vk))"
    using fmt_02x_plain [of "unat vk"] by (simp add: plain_def unbroken_def)
  ultimately show ?thesis
    using vk_to_char_gw_forms [of result wchar0 vk] printable_unbroken by auto
qed

lemma csv_row_text: "csv_row f e = row_text f e @ newline"
  by (simp add: row_text_def csv_row_def newline_def butlast_append)

lemma csv_header_text: "csv_header = header_text @ newline"
  by (simp add: header_text_def csv_header_def newline_def butlast_append)

lemma row_text_eq:
  "row_text f e =
     fmt_d (seq e) @ '','' @ f (timestamp_ms e) @ '','' @ f (event_timestamp_ms e) @ '','' @
     event_type e @ '','' @ fmt_d (keycode e) @ '','' @ fmt_d (scancode e) @ '','' @
     character e @ '','' @ modifiers e @ '','' @ fmt_d (is_repeat e)"
proof -
  have "csv_row f e = (fmt_d (seq e) @ '','' @ f (timestamp_ms e) @ '','' @ f (event_timestamp_ms e) @ '','' @
     event_type e @ '','' @ fmt_d (keycode e) @ '','' @ fmt_d (scancode e) @ '','' @
     character e @ '','' @ modifiers e @ '','' @ fmt_d (is_repeat e)) @ [CHR 0x0A]"
    by (simp add: csv_row_def newline_def)
  then show ?thesis
    unfolding row_text_def by (simp only: butlast_snoc)
qed

lemma row_text_unbroken:
  assumes "unbroken_event e" and "unbroken (f (timestamp_ms e))" and "unbroken (f (event_timestamp_ms e))"
  shows "unbroken (row_text f e)"
  using assms plain_unbroken [OF fmt_d_plain]
  by (simp add: row_text_eq unbroken_event_def) (simp add: unbroken_def)

lemma row_text_fields:
  "length (fields_of (row_text f e)) =
     9 + count_list (f (timestamp_ms e)) (CHR '','') + count_list (f (event_timestamp_ms e)) (CHR '','') +
     count_list (event_type e) (CHR '','') + count_list (character e) (CHR '','') +
     count_list (modifiers e) (CHR '','')"
proof -
  have d: "count_list (fmt_d i) (CHR '','') = 0" for i
    using fmt_d_plain [of i] by (simp add: plain_def)
  show ?thesis
    by (simp add: fields_of_def length_split_on row_text_eq d)
qed

lemma row_text_nine_fields:
  assumes "plain_event e" and "plain (f (timestamp_ms e))" and "plain (f (event_timestamp_ms e))"
  shows "length (fields_of (row_text f e)) = 9"
  using assms by (simp add: row_text_fields plain_event_def plain_def)

lemma csv_table_lines:
  "csv_table f s = concat (map (\<lambda>l. l @ newline) (header_text # map (row_text f) (snapshot s)))"
proof -
  have "csv_row f = (\<lambda>l. l @ newline) \<circ> row_text f"
    by (simp add: fun_eq_iff csv_row_text)
  then show ?thesis
    by (simp add: csv_table_def csv_header_text)
qed

lemma csv_text_win_lines:
  assumes "unbroken mode" and "unbroken (time_str env)"
    and "\<forall>e\<in>set (snapshot s). unbroken (row_text (fmt_3f env) e)"
  shows "lines_of (csv_text_win mode env s) =
     [''# platform=Windows-'' @ arch_name (wProcessorArchitecture env), ''# language=c'',
      ''# mode='' @ mode, ''# clock_source=QueryPerformanceCounter'',
      ''# start_time_utc='' @ time_str env, header_text] @
     map (row_text (fmt_3f env)) (snapshot s)"
proof -
  let ?ls = "[''# platform=Windows-'' @ arch_name (wProcessorArchitecture env), ''# language=c'',
      ''# mode='' @ mode, ''# clock_source=QueryPerformanceCounter'',
      ''# start_time_utc='' @ time_str env, header_text] @
     map (row_text (fmt_3f env)) (snapshot s)"
  have eq: "csv_text_win mode env s = concat (map (\<lambda>l. l @ newline) ?ls)"
    by (simp add: csv_text_win_def csv_table_lines)
  have "unbroken (arch_name a)" for a
    by (simp add: arch_name_def unbroken_def)
  with assms have "\<forall>l\<in>set ?ls. CHR 0x0A \<notin> set l"
    by (auto simp: unbroken_def header_text_def csv_header_def newline_def)
  then show ?thesis
    unfolding eq by (rule lines_of_lines)
qed

lemma csv_text_mac_lines:
  assumes "unbroken mode" and "unbroken (time_str env)" and "unbroken (platform_ver env)"
    and "unbroken (machine env)"
    and "\<forall>e\<in>set (snapshot s). unbroken (row_text (fmt_3f env) e)"
  shows "lines_of (csv_text_mac mode env s) =
     [''# platform=macOS-'' @ platform_ver env @ ''-'' @ machine env, ''# language=c'',
      ''# mode='' @ mode, ''# clock_source=mach_absolute_time'',
      ''# start_time_utc='' @ time_str env, header_text] @
     map (row_text (fmt_3f env)) (snapshot s)"
proof -
  let ?ls = "[''# platform=macOS-'' @ platform_ver env @ ''-'' @ machine env, ''# language=c'',
      ''# mode='' @ mode, ''# clock_source=mach_absolute_time'',
      ''# start_time_utc='' @ time_str env, header_text] @
     map (row_text (fmt_3f env)) (snapshot s)"
  have eq: "csv_text_mac mode env s = concat (map (\<lambda>l. l @ newline) ?ls)"
    by (simp add: csv_text_mac_def csv_table_lines)
  from assms have "\<forall>l\<in>set ?ls. CHR 0x0A \<notin> set l"
    by (auto simp: unbroken_def header_text_def csv_header_def newline_def)
  then show ?thesis
    unfolding eq by (rule lines_of_lines)
qed

lemma literal_types [simp]:
  "plain ''key_down''" "plain ''key_up''" "plain ''flags_changed''"
  "unbroken ''key_down''" "unbroken ''key_up''" "unbroken ''terminal''" "unbroken ''gui''"
  by (simp_all add: plain_def unbroken_def)

lemma keyboard_hook_unbroken:
  assumes "keyboard_hook s h = Inr s'"
  shows "appended (\<lambda>i. unbroken_event) s s'"
proof -
  have "unbroken_event e" if "event_type e \<in> {''key_down'', ''key_up''}"
      and "character e =
            strncpy (vk_to_char_tw (ToUnicode_result h) (ToUnicode_wchar0 h) (vkCode h)) 15"
      and "modifiers e = build_modifier_string_win (key_state h) 64" for e :: "'a KeyEvent"
    using that plain_unbroken [OF build_modifier_string_plain(1)]
    by (auto simp: unbroken_event_def strncpy_def intro: unbroken_take vk_to_char_tw_unbroken)
  with assms show ?thesis
    by (auto simp: keyboard_hook_def Let_def events_put_def appended_def le_less_Suc_eq
        split: if_splits)
qed

lemma run_keyboard_hook_unbroken:
  "run_keyboard_hook s hs = Inr s' \<Longrightarrow> appended (\<lambda>i. unbroken_event) s s'"
proof (induction hs arbitrary: s)
  case Nil
  then show ?case by (simp add: appended_refl)
next
  case (Cons h hs)
  from Cons.prems obtain s1 where s1: "keyboard_hook s h = Inr s1" "run_keyboard_hook s1 hs = Inr s'"
    by (auto split: sum.splits)
  from keyboard_hook_unbroken [OF s1(1)] Cons.IH [OF s1(2)] show ?case
    by (rule appended_trans)
qed

lemma record_key_event_unbroken:
  assumes "record_key_event s m t = Inr s'" and "unbroken t"
  shows "appended (\<lambda>i. unbroken_event) s s'"
proof -
  have "unbroken_event e" if "event_type e = t"
      and "character e =
            strncpy (vk_to_char_gw (ToUnicode_result m) (ToUnicode_wchar0 m) (ucast (wParam m))) 15"
      and "modifiers e = build_modifier_string_win (key_state m) 64" for e :: "'a KeyEvent"
    using that assms(2) plain_unbroken [OF build_modifier_string_plain(1)]
    by (auto simp: unbroken_event_def strncpy_def intro: unbroken_take vk_to_char_gw_unbroken)
  with assms(1) show ?thesis
    by (auto simp: record_key_event_def Let_def events_put_def appended_def le_less_Suc_eq
        split: if_splits)
qed

lemma wnd_proc_unbroken:
  assumes "wnd_proc env s m = Inr s'"
  shows "appended (\<lambda>i. unbroken_event) s s'"
  using assms
  by (auto simp: wnd_proc_def write_csv_gw_def split: if_splits
      intro: appended_same appended_refl record_key_event_unbroken)

lemma run_wnd_proc_unbroken:
  "run_wnd_proc env s ms = Inr s' \<Longrightarrow> appended (\<lambda>i. unbroken_event) s s'"
proof (induction ms arbitrary: s)
  case Nil
  then show ?case by (simp add: appended_refl)
next
  case (Cons m ms)
  from Cons.prems obtain s1 where s1: "wnd_proc env s m = Inr s1" "run_wnd_proc env s1 ms = Inr s'"
    by (auto split: sum.splits)
  from wnd_proc_unbroken [OF s1(1)] Cons.IH [OF s1(2)] show ?case
    by (rule appended_trans)
qed

lemma record_event_plain:
  assumes "record_event s ev t = Inr s'" and "plain t"
  shows "appended (\<lambda>i. plain_event) s s'"
  using assms
  by (auto simp: record_event_def Let_def plain_event_def strncpy_def split: if_splits
      intro!: events_put_appended appended_refl plain_take keycode_to_char_gm_plain
        build_modifier_string_plain)

lemma record_flags_changed_plain:
  assumes "record_flags_changed s ev = Inr s'"
  shows "appended (\<lambda>i. plain_event) s s'"
proof -
  have "plain_event e" if "event_type e \<in> {''key_down'', ''key_up''}"
      and "character e = strncpy (keycode_to_char_gm (keyCode ev)) 7"
      and "modifiers e = build_modifier_string_gm (modifierFlags ev) 64" for e :: "'a KeyEvent"
    using that
    by (auto simp: plain_event_def strncpy_def
        intro: plain_take keycode_to_char_gm_plain build_modifier_string_plain)
  with assms show ?thesis
    by (auto simp: record_flags_changed_def Let_def events_put_def appended_def le_less_Suc_eq
        split: if_splits)
qed

lemma deliver_gm_plain:
  assumes "deliver_gm env s c = Inr s'"
  shows "appended (\<lambda>i. plain_event) s s'"
  using assms
  by (cases c)
     (auto simp: keyDown_def keyUp_def flagsChanged_def signal_handler_gm_def write_csv_gm_def
        split: if_splits
        intro: appended_same record_event_plain record_flags_changed_plain)

lemma run_gm_plain:
  "run_gm env s cs = Inr s' \<Longrightarrow> appended (\<lambda>i. plain_event) s s'"
proof (induction cs arbitrary: s)
  case Nil
  then show ?case by (simp add: appended_refl)
next
  case (Cons c cs)
  show ?case
  proof (cases "exited s")
    case True
    with Cons.prems show ?thesis by (auto intro: appended_refl)
  next
    case False
    with Cons.prems obtain s1 where s1: "deliver_gm env s c = Inr s1" "run_gm env s1 cs = Inr s'"
      by (auto split: sum.splits)
    from deliver_gm_plain [OF s1(1)] Cons.IH [OF s1(2)] show ?thesis
      by (rule appended_trans)
  qed
qed

lemma event_callback_plain:
  assumes "event_callback s type ev = Inr s'"
  shows "appended (\<lambda>i. plain_event) s s'"
proof -
  have "plain_event e" if "event_type e \<in> {''key_down'', ''key_up'', ''flags_changed''}"
      and "character e = strncpy (keycode_to_char_tm (cg_keycode ev)) 7"
      and "modifiers e = build_modifier_string_tm (cg_flags ev) 64" for e :: "'a KeyEvent"
    using that
    by (auto simp: plain_event_def strncpy_def
        intro: plain_take keycode_to_char_tm_plain build_modifier_string_plain)
  with assms show ?thesis
    by (auto simp: event_callback_def Let_def events_put_def appended_def le_less_Suc_eq
        split: if_splits)
qed

lemma deliver_all_tm_plain:
  "deliver_all_tm s xs = Inr s' \<Longrightarrow> appended (\<lambda>i. plain_event) s s'"
proof (induction xs arbitrary: s)
  case Nil
  then show ?case by (simp add: appended_refl)
next
  case (Cons x xs)
  from Cons.prems obtain s1 where s1: "deliver_tm s x = Inr s1" "deliver_all_tm s1 xs = Inr s'"
    by (auto split: sum.splits)
  have "appended (\<lambda>i. plain_event) s s1"
    using s1(1) by (cases x) (auto simp: signal_handler_tm_def intro: event_callback_plain appended_same)
  from this Cons.IH [OF s1(2)] show ?case
    by (rule appended_trans)
qed

lemma appended_all:
  "appended (\<lambda>i. P) s s' \<Longrightarrow> event_count s = 0 \<Longrightarrow> \<forall>i<event_count s'. P (events s' i)"
  by (auto simp: appended_def)

lemma snapshot_all:
  "(\<forall>e\<in>set (snapshot s). P e) \<longleftrightarrow> (\<forall>i<event_count s. P (events s i))"
  by (auto simp: snapshot_def)

lemma printable_comma_or_plain:
  assumes "32 \<le> (of_char c :: nat)"
  shows "plain [c] \<or> [c] = '',''"
proof (cases "c = CHR '',''")
  case True
  then show ?thesis by simp
next
  case False
  moreover from assms have "c \<noteq> CHR 0x0A" by auto
  ultimately show ?thesis by (simp add: plain_def)
qed

lemma vk_to_char_tw_comma_or_plain:
  "plain (vk_to_char_tw result wchar0 vk) \<or> vk_to_char_tw result wchar0 vk = '',''"
proof -
  have "plain name" if "name \<in> snd ` set named_keys_tw" for name
    using that by (auto simp: named_keys_tw_def plain_def)
  moreover have "plain (''vk_0x'' @ fmt_02x (unat vk))"
    using fmt_02x_plain [of "unat vk"] by (simp add: plain_def)
  moreover have "plain [c] \<or> [c] = '',''" if "32 \<le> (of_char c :: nat)" for c
    using that by (rule printable_comma_or_plain)
  ultimately show ?thesis
    using vk_to_char_tw_forms [of result wchar0 vk] by metis
qed

lemma vk_to_char_gw_comma_or_plain:
  "plain (vk_to_char_gw result wchar0 vk) \<or> vk_to_char_gw result wchar0 vk = '',''"
proof -
  have "plain name" if "name \<in> snd ` set named_keys_gw" for name
    using that by (auto simp: named_keys_gw_def plain_def)
  moreover have "plain (''vk_0x'' @ fmt_02x (unat vk))"
    using fmt_02x_plain [of "unat vk"] by (simp add: plain_def)
  moreover have "plain [c] \<or> [c] = '',''" if "32 \<le> (of_char c :: nat)" for c
    using that by (rule printable_comma_or_plain)
  ultimately show ?thesis
    using vk_to_char_gw_forms [of result wchar0 vk] by metis
qed

lemma take_comma_or_plain: "plain tok \<or> tok = '','' \<Longrightarrow> plain (take 15 tok) \<or> take 15 tok = '',''"
  by (auto intro: plain_take)

lemma keyboard_hook_comma_or_plain:
  assumes "keyboard_hook s h = Inr s'"
  shows "appended (\<lambda>i. comma_or_plain_event) s s'"
proof -
  have "comma_or_plain_event e" if "event_type e \<in> {''key_down'', ''key_up''}"
      and "character e =
            strncpy (vk_to_char_tw (ToUnicode_result h) (ToUnicode_wchar0 h) (vkCode h)) 15"
      and "modifiers e = build_modifier_string_win (key_state h) 64" for e :: "'a KeyEvent"
    using that build_modifier_string_plain(1) [of "key_state h"]
      take_comma_or_plain [OF vk_to_char_tw_comma_or_plain
        [of "ToUnicode_result h" "ToUnicode_wchar0 h" "vkCode h"]]
    by (auto simp: comma_or_plain_event_def strncpy_def)
  with assms show ?thesis
    by (auto simp: keyboard_hook_def Let_def events_put_def appended_def le_less_Suc_eq
        split: if_splits)
qed

lemma run_keyboard_hook_comma_or_plain:
  "run_keyboard_hook s hs = Inr s' \<Longrightarrow> appended (\<lambda>i. comma_or_plain_event) s s'"
proof (induction hs arbitrary: s)
  case Nil
  then show ?case by (simp add: appended_refl)
next
  case (Cons h hs)
  from Cons.prems obtain s1 where s1: "keyboard_hook s h = Inr s1" "run_keyboard_hook s1 hs = Inr s'"
    by (auto split: sum.splits)
  from keyboard_hook_comma_or_plain [OF s1(1)] Cons.IH [OF s1(2)] show ?case
    by (rule appended_trans)
qed

lemma csv_lines_tw:
  assumes "run_keyboard_hook tw_init hs = Inr s" and "unbroken (time_str env)"
    and "\<forall>d. unbroken (fmt_3f env d)"
  shows "lines_of (csv_text_win ''terminal'' env s) =
     [''# platform=Windows-'' @ arch_name (wProcessorArchitecture env), ''# language=c'',
      ''# mode=terminal'', ''# clock_source=QueryPerformanceCounter'',
      ''# start_time_utc='' @ time_str env, header_text] @
     map (row_text (fmt_3f env)) (snapshot s)"
    and "length (lines_of (csv_text_win ''terminal'' env s)) = event_count s + 6"
proof -
  have "\<forall>i<event_count s. unbroken_event (events s i)"
    using run_keyboard_hook_unbroken [OF assms(1)] by (rule appended_all) simp
  with assms(3) have "\<forall>e\<in>set (snapshot s). unbroken (row_text (fmt_3f env) e)"
    by (simp add: snapshot_all row_text_unbroken)
  from csv_text_win_lines [OF _ assms(2) this, of "''terminal''"]
  show "lines_of (csv_text_win ''terminal'' env s) =
     [''# platform=Windows-'' @ arch_name (wProcessorArchitecture env), ''# language=c'',
      ''# mode=terminal'', ''# clock_source=QueryPerformanceCounter'',
      ''# start_time_utc='' @ time_str env, header_text] @
     map (row_text (fmt_3f env)) (snapshot s)"
    by simp
  then show "length (lines_of (csv_text_win ''terminal'' env s)) = event_count s + 6"
    by (simp add: snapshot_def)
qed

lemma csv_fields_tw:
  assumes "run_keyboard_hook tw_init hs = Inr s" and "\<forall>d. plain (fmt_3f env d)"
    and "i < event_count s"
  shows "length (fields_of (row_text (fmt_3f env) (events s i))) =
           (if character (events s i) = '','' then 10 else 9)"
proof -
  have "\<forall>i<event_count s. comma_or_plain_event (events s i)"
    using run_keyboard_hook_comma_or_plain [OF assms(1)] by (rule appended_all) simp
  with assms(3) have e: "comma_or_plain_event (events s i)" by simp
  have f: "count_list (fmt_3f env d) (CHR '','') = 0" for d
    using assms(2) by (simp add: plain_def)
  show ?thesis
  proof (cases "character (events s i) = '',''")
    case True
    with e f show ?thesis
      by (simp add: row_text_fields comma_or_plain_event_def plain_def)
  next
    case False
    with e f show ?thesis
      by (simp add: row_text_fields comma_or_plain_event_def plain_def)
  qed
qed

lemma csv_lines_gm:
  assumes "run_gm env0 (gm_init path) cs = Inr s" and "unbroken (time_str env)"
    and "unbroken (platform_ver env)" and "unbroken (machine env)"
    and "\<forall>d. unbroken (fmt_3f env d)"
  shows "lines_of (csv_text_mac ''gui'' env s) =
     [''# platform=macOS-'' @ platform_ver env @ ''-'' @ machine env, ''# language=c'',
      ''# mode=gui'', ''# clock_source=mach_absolute_time'',
      ''# start_time_utc='' @ time_str env, header_text] @
     map (row_text (fmt_3f env)) (snapshot s)"
    and "length (lines_of (csv_text_mac ''gui'' env s)) = event_count s + 6"
proof -
  have "\<forall>i<event_count s. plain_event (events s i)"
    using run_gm_plain [OF assms(1)] by (rule appended_all) simp
  then have "\<forall>i<event_count s. unbroken_event (events s i)"
    by (auto simp: plain_event_def unbroken_event_def intro: plain_unbroken)
  with assms(5) have "\<forall>e\<in>set (snapshot s). unbroken (row_text (fmt_3f env) e)"
    by (simp add: snapshot_all row_text_unbroken)
  from csv_text_mac_lines [OF _ assms(2) assms(3) assms(4) this, of "''gui''"]
  show "lines_of (csv_text_mac ''gui'' env s) =
     [''# platform=macOS-'' @ platform_ver env @ ''-'' @ machine env, ''# language=c'',
      ''# mode=gui'', ''# clock_source=mach_absolute_time'',
      ''# start_time_utc='' @ time_str env, header_text] @
     map (row_text (fmt_3f env)) (snapshot s)"
    by simp
  then show "length (lines_of (csv_text_mac ''gui'' env s)) = event_count s + 6"
    by (simp add: snapshot_def)
qed

lemma csv_fields_gm:
  assumes "run_gm env0 (gm_init path) cs = Inr s" and "\<forall>d. plain (fmt_3f env d)"
    and "i < event_count s"
  shows "length (fields_of (row_text (fmt_3f env) (events s i))) = 9"
proof -
  have "\<forall>i<event_count s. plain_event (events s i)"
    using run_gm_plain [OF assms(1)] by (rule appended_all) simp
  with assms(2,3) show ?thesis
    by (simp add: row_text_nine_fields)
qed

subsection \<open>The event type in the written files\<close>

lemma event_type_field_row:
  assumes "plain (f (timestamp_ms e))" and "plain (f (event_timestamp_ms e))"
    and "plain (event_type e)"
  shows "event_type_field (row_text f e) = Some (event_type e)"
proof -
  have c: "CHR '','' \<notin> set (fmt_d (seq e))" "CHR '','' \<notin> set (f (timestamp_ms e))"
    "CHR '','' \<notin> set (f (event_timestamp_ms e))" "CHR '','' \<notin> set (event_type e)"
    using assms fmt_d_plain [of "seq e"] by (simp_all add: plain_def)
  have "fields_of (row_text f e) =
      fmt_d (seq e) # f (timestamp_ms e) # f (event_timestamp_ms e) # event_type e #
      split_on (CHR '','') (fmt_d (keycode e) @ '','' @ fmt_d (scancode e) @ '','' @
        character e @ '','' @ modifiers e @ '','' @ fmt_d (is_repeat e))"
    by (simp add: fields_of_def row_text_eq split_on_line c)
  then show ?thesis
    by (simp add: event_type_field_def)
qed

lemma typed_event_row:
  assumes "typed_event T e" and "\<forall>t\<in>T. plain t" and "\<forall>d. plain (f d)"
  shows "unbroken (row_text f e)" and "event_type_field (row_text f e) \<in> Some ` T"
proof -
  from assms show "unbroken (row_text f e)"
    by (auto simp: typed_event_def intro: row_text_unbroken plain_unbroken)
  from assms have "event_type_field (row_text f e) = Some (event_type e)"
    by (auto simp: typed_event_def intro: event_type_field_row)
  with assms(1) show "event_type_field (row_text f e) \<in> Some ` T"
    by (simp add: typed_event_def)
qed

lemma typed_text_win:
  assumes "unbroken mode" and "unbroken (time_str env)" and "\<forall>d. plain (fmt_3f env d)"
    and "\<forall>i<event_count s. typed_event T (events s i)" and "\<forall>t\<in>T. plain t"
  shows "rows_typed T (csv_text_win mode env s)"
    and "length (data_rows (csv_text_win mode env s)) = event_count s"
proof -
  have rows: "\<forall>e\<in>set (snapshot s). unbroken (row_text (fmt_3f env) e)"
    unfolding snapshot_all using assms(3,4,5) typed_event_row(1) by blast
  have d: "data_rows (csv_text_win mode env s) = map (row_text (fmt_3f env)) (snapshot s)"
    by (simp add: data_rows_def csv_text_win_lines [OF assms(1,2) rows])
  have "\<forall>e\<in>set (snapshot s). event_type_field (row_text (fmt_3f env) e) \<in> Some ` T"
    unfolding snapshot_all using assms(3,4,5) typed_event_row(2) by blast
  then show "rows_typed T (csv_text_win mode env s)"
    by (simp add: rows_typed_def d)
  show "length (data_rows (csv_text_win mode env s)) = event_count s"
    by (simp add: d snapshot_def)
qed

lemma typed_text_mac:
  assumes "unbroken mode" and "unbroken (time_str env)" and "unbroken (platform_ver env)"
    and "unbroken (machine env)" and "\<forall>d. plain (fmt_3f env d)"
    and "\<forall>i<event_count s. typed_event T (events s i)" and "\<forall>t\<in>T. plain t"
  shows "rows_typed T (csv_text_mac mode env s)"
    and "length (data_rows (csv_text_mac mode env s)) = event_count s"
proof -
  have rows: "\<forall>e\<in>set (snapshot s). unbroken (row_text (fmt_3f env) e)"
    unfolding snapshot_all using assms(5,6,7) typed_event_row(1) by blast
  have d: "data_rows (csv_text_mac mode env s) = map (row_text (fmt_3f env)) (snapshot s)"
    by (simp add: data_rows_def csv_text_mac_lines [OF assms(1,2,3,4) rows])
  have "\<forall>e\<in>set (snapshot s). event_type_field (row_text (fmt_3f env) e) \<in> Some ` T"
    unfolding snapshot_all using assms(5,6,7) typed_event_row(2) by blast
  then show "rows_typed T (csv_text_mac mode env s)"
    by (simp add: rows_typed_def d)
  show "length (data_rows (csv_text_mac mode env s)) = event_count s"
    by (simp add: d snapshot_def)
qed


lemma appended_conj:
  "appended P s s' \<Longrightarrow> appended Q s s' \<Longrightarrow> appended (\<lambda>i e. P i e \<and> Q i e) s s'"
  by (auto simp: appended_def)

lemma appended_keeps:
  "appended (\<lambda>i. P) s s' \<Longrightarrow> \<forall>i<event_count s. P (events s i) \<Longrightarrow>
   \<forall>i<event_count s'. P (events s' i)"
  by (auto simp: appended_def) (metis not_le_imp_less)

lemma typed_plain:
  "\<forall>t\<in>{''key_down'', ''key_up''}. plain t"
  "\<forall>t\<in>{''key_down'', ''key_up'', ''flags_changed''}. plain t"
  by simp_all

lemma written_texts_simps [simp]:
  "written_texts [] = []"
  "written_texts (Wrote path text # log) = text # written_texts log"
  "written_texts (OpenFailed path # log) = written_texts log"
  "written_texts (log @ log') = written_texts log @ written_texts log'"
  by (simp_all add: written_texts_def)

text \<open>terminal\_windows.c\<close>

lemma deliver_tw_typed:
  assumes "deliver_tw s x = Inr s'"
  shows "appended (\<lambda>i. typed_event {''key_down'', ''key_up''}) s s'"
proof (cases x)
  case (Hook h)
  with assms have h: "keyboard_hook s h = Inr s'" by simp
  from appended_conj [OF keyboard_hook_appended [OF h] keyboard_hook_unbroken [OF h]]
  show ?thesis
    by (rule appended_mono) (simp add: typed_event_def new_tw_def)
next
  case (Ctrl type)
  with assms show ?thesis
    by (auto simp: console_handler_effect intro: appended_same)
qed

lemma deliver_all_tw_typed:
  "deliver_all_tw s xs = Inr s' \<Longrightarrow> appended (\<lambda>i. typed_event {''key_down'', ''key_up''}) s s'"
proof (induction xs arbitrary: s)
  case Nil
  then show ?case by (simp add: appended_refl)
next
  case (Cons x xs)
  from Cons.prems obtain s1 where s1: "deliver_tw s x = Inr s1" "deliver_all_tw s1 xs = Inr s'"
    by (auto split: sum.splits)
  from deliver_tw_typed [OF s1(1)] Cons.IH [OF s1(2)] show ?case
    by (rule appended_trans)
qed

lemma message_loop_tw_typed:
  "message_loop_tw s calls = Some (Inr s') \<Longrightarrow>
   appended (\<lambda>i. typed_event {''key_down'', ''key_up''}) s s'"
proof (induction calls arbitrary: s)
  case Nil
  then show ?case by (auto split: if_splits intro: appended_refl)
next
  case (Cons call calls)
  obtain arrivals got where call: "call = (arrivals, got)"
    by (cases call)
  show ?case
  proof (cases "running s = 0")
    case True
    with Cons.prems call show ?thesis by (auto intro: appended_refl)
  next
    case False
    with Cons.prems call obtain s1 where s1: "deliver_all_tw s arrivals = Inr s1"
      by (auto split: sum.splits)
    note a = deliver_all_tw_typed [OF s1]
    show ?thesis
    proof (cases got)
      case True
      with Cons.prems call s1 False have "message_loop_tw s1 calls = Some (Inr s')" by simp
      from a Cons.IH [OF this] show ?thesis by (rule appended_trans)
    next
      case g: False
      with Cons.prems call s1 False a show ?thesis by auto
    qed
  qed
qed

lemma main_tw_files:
  assumes "main_tw argv hook_installed env calls = Some r"
    and "unbroken (time_str env)" and "\<forall>d. plain (fmt_3f env d)"
  shows "\<exists>status s. r = Inr (status, s) \<and>
           (\<forall>e\<in>set (snapshot s). event_type e \<in> {''key_down'', ''key_up''}) \<and>
           (\<forall>text\<in>set (written_texts (io_log s)). rows_typed {''key_down'', ''key_up''} text)"
proof (cases hook_installed)
  case False
  with assms(1) have "r = Inr (1, tw_init)"
    by (simp add: main_tw_def Let_def)
  then show ?thesis
    by (simp add: snapshot_def) (simp add: tw_init_def)
next
  case True
  let ?path = "if length argv > 1 then argv ! 1 else DEFAULT_OUTPUT_tw"
  from assms(1) True have m: "main_tw argv True env calls = Some r" by simp
  from main_tw_flush [OF m] obtain s_end where
    s_end: "message_loop_tw tw_init calls = Some (Inr s_end)" "io_log s_end = []"
      "r = Inr (0, write_csv_tw env ?path s_end)"
    by blast
  have typed: "\<forall>i<event_count s_end. typed_event {''key_down'', ''key_up''} (events s_end i)"
    using message_loop_tw_typed [OF s_end(1)] by (rule appended_all) simp
  have rows: "rows_typed {''key_down'', ''key_up''} (csv_text_win ''terminal'' env s_end)"
    using typed_text_win(1) [OF _ assms(2,3) typed typed_plain(1), of "''terminal''"] by simp
  have "\<forall>e\<in>set (snapshot (write_csv_tw env ?path s_end)).
          event_type e \<in> {''key_down'', ''key_up''}"
    using typed by (simp add: snapshot_all write_csv_tw_def typed_event_def)
  moreover have "\<forall>text\<in>set (written_texts (io_log (write_csv_tw env ?path s_end))).
          rows_typed {''key_down'', ''key_up''} text"
    using rows s_end(2) by (simp add: write_csv_tw_def write_csv_win_def)
  ultimately show ?thesis
    using s_end(3) by blast
qed

text \<open>gui\_windows.c\<close>

lemma wnd_proc_typed:
  assumes "wnd_proc env s m = Inr s'"
  shows "appended (\<lambda>i. typed_event {''key_down'', ''key_up''}) s s'"
  using appended_conj [OF wnd_proc_appended [OF assms] wnd_proc_unbroken [OF assms]]
  by (rule appended_mono) (simp add: typed_event_def new_rec_def)

lemma wnd_proc_files:
  assumes "wnd_proc env s m = Inr s'"
    and "unbroken (time_str env)" and "\<forall>d. plain (fmt_3f env d)"
    and "\<forall>i<event_count s. typed_event {''key_down'', ''key_up''} (events s i)"
    and "\<forall>text\<in>set (written_texts (io_log s)). rows_typed {''key_down'', ''key_up''} text"
  shows "\<forall>text\<in>set (written_texts (io_log s')). rows_typed {''key_down'', ''key_up''} text"
proof -
  have rows: "rows_typed {''key_down'', ''key_up''} (csv_text_win ''gui'' env s)"
    using typed_text_win(1) [OF _ assms(2,3,4) typed_plain(1), of "''gui''"] by simp
  have w: "\<forall>text\<in>set (written_texts (io_log (write_csv_gw env s))).
             rows_typed {''key_down'', ''key_up''} text"
    using rows assms(5) by (simp add: write_csv_gw_def write_csv_win_def)
  have rec: "io_log s' = io_log s" if "record_key_event s m t = Inr s'" for t
    using record_key_event_rest [OF that] by simp
  show ?thesis
    using assms(1,5) w rec
    by (auto simp: wnd_proc_def split: if_splits)
qed

lemma run_wnd_proc_files:
  assumes "run_wnd_proc env s ms = Inr s'"
    and "unbroken (time_str env)" and "\<forall>d. plain (fmt_3f env d)"
    and "\<forall>i<event_count s. typed_event {''key_down'', ''key_up''} (events s i)"
    and "\<forall>text\<in>set (written_texts (io_log s)). rows_typed {''key_down'', ''key_up''} text"
  shows "\<forall>text\<in>set (written_texts (io_log s')). rows_typed {''key_down'', ''key_up''} text"
  using assms(1,4,5)
proof (induction ms arbitrary: s)
  case Nil
  then show ?case by simp
next
  case (Cons m ms)
  from Cons.prems(1) obtain s1 where s1: "wnd_proc env s m = Inr s1" "run_wnd_proc env s1 ms = Inr s'"
    by (auto split: sum.splits)
  have typed: "\<forall>i<event_count s1. typed_event {''key_down'', ''key_up''} (events s1 i)"
    using wnd_proc_typed [OF s1(1)] Cons.prems(2) by (rule appended_keeps)
  have files: "\<forall>text\<in>set (written_texts (io_log s1)). rows_typed {''key_down'', ''key_up''} text"
    using s1(1) assms(2,3) Cons.prems(2,3) by (rule wnd_proc_files)
  from Cons.IH [OF s1(2) typed files] show ?case .
qed

text \<open>gui\_macos.m\<close>

lemma plain_event_unbroken: "plain_event e \<Longrightarrow> unbroken_event e"
  by (simp add: plain_event_def unbroken_event_def plain_unbroken)

lemma deliver_gm_typed:
  assumes "deliver_gm env s c = Inr s'"
  shows "appended (\<lambda>i. typed_event {''key_down'', ''key_up''}) s s'"
  using appended_conj [OF deliver_gm_appended [OF assms] deliver_gm_plain [OF assms]]
  by (rule appended_mono) (simp add: typed_event_def new_rec_def plain_event_unbroken)

lemma deliver_gm_files:
  assumes "deliver_gm env0 s c = Inr s'"
    and "unbroken (time_str env0)" and "unbroken (platform_ver env0)" and "unbroken (machine env0)"
    and "\<forall>d. plain (fmt_3f env0 d)"
    and "\<forall>i<event_count s. typed_event {''key_down'', ''key_up''} (events s i)"
    and "\<forall>text\<in>set (written_texts (io_log s)). rows_typed {''key_down'', ''key_up''} text"
  shows "\<forall>text\<in>set (written_texts (io_log s')). rows_typed {''key_down'', ''key_up''} text"
proof -
  have rows: "rows_typed {''key_down'', ''key_up''} (csv_text_mac ''gui'' env0 s)"
    using typed_text_mac(1) [OF _ assms(2,3,4,5,6) typed_plain(1), of "''gui''"] by simp
  have w: "\<forall>text\<in>set (written_texts (io_log (write_csv_gm env0 s))).
             rows_typed {''key_down'', ''key_up''} text"
    using rows assms(7) by (simp add: write_csv_gm_def write_csv_mac_def)
  have rec: "io_log s' = io_log s" if "record_event s ev t = Inr s'" for t ev
    using record_event_log [OF that] by simp
  have fl: "io_log s' = io_log s" if "record_flags_changed s ev = Inr s'" for ev
    using record_flags_changed_log [OF that] by simp
  show ?thesis
    using assms(1,7) w rec fl
    by (cases c)
       (auto simp: keyDown_def keyUp_def flagsChanged_def signal_handler_gm_def split: if_splits)
qed

lemma run_gm_files:
  assumes "run_gm env0 s cs = Inr s'"
    and "unbroken (time_str env0)" and "unbroken (platform_ver env0)" and "unbroken (machine env0)"
    and "\<forall>d. plain (fmt_3f env0 d)"
    and "\<forall>i<event_count s. typed_event {''key_down'', ''key_up''} (events s i)"
    and "\<forall>text\<in>set (written_texts (io_log s)). rows_typed {''key_down'', ''key_up''} text"
  shows "\<forall>text\<in>set (written_texts (io_log s')). rows_typed {''key_down'', ''key_up''} text"
  using assms(1,6,7)
proof (induction cs arbitrary: s)
  case Nil
  then show ?case by simp
next
  case (Cons c cs)
  show ?case
  proof (cases "exited s")
    case True
    with Cons.prems show ?thesis by simp
  next
    case False
    with Cons.prems(1) obtain s1 where s1: "deliver_gm env0 s c = Inr s1" "run_gm env0 s1 cs = Inr s'"
      by (auto split: sum.splits)
    have typed: "\<forall>i<event_count s1. typed_event {''key_down'', ''key_up''} (events s1 i)"
      using deliver_gm_typed [OF s1(1)] Cons.prems(2) by (rule appended_keeps)
    have files: "\<forall>text\<in>set (written_texts (io_log s1)). rows_typed {''key_down'', ''key_up''} text"
      using s1(1) assms(2,3,4,5) Cons.prems(2,3) by (rule deliver_gm_files)
    from Cons.IH [OF s1(2) typed files] show ?thesis .
  qed
qed

text \<open>terminal\_macos.c\<close>

lemma deliver_all_tm_typed:
  assumes "deliver_all_tm s xs = Inr s'"
  shows "appended (\<lambda>i. typed_event {''key_down'', ''key_up'', ''flags_changed''}) s s'"
proof -
  from deliver_all_tm_appended [of s xs] assms have a: "appended new_tm s s'" by auto
  from appended_conj [OF a deliver_all_tm_plain [OF assms]] show ?thesis
    by (rule appended_mono) (simp add: typed_event_def new_tm_def plain_event_unbroken)
qed

lemma deliver_all_tm_typed_in_range:
  assumes "deliver_all_tm s xs = Inr s'"
    and "\<forall>type ev. Tap type ev \<in> set xs \<and> type = kCGEventFlagsChanged \<longrightarrow>
             0 \<le> sint (cg_keycode ev) \<and> sint (cg_keycode ev) < 256"
  shows "appended (\<lambda>i. typed_event {''key_down'', ''key_up''}) s s'"
proof -
  from deliver_all_tm_in_range [OF assms(2), of s] assms(1) have a: "appended new_rec s s'" by auto
  from appended_conj [OF a deliver_all_tm_plain [OF assms(1)]] show ?thesis
    by (rule appended_mono) (simp add: typed_event_def new_rec_def plain_event_unbroken)
qed

lemma run_loop_tm_typed:
  "run_loop_tm s calls = Some (Inr s') \<Longrightarrow>
   appended (\<lambda>i. typed_event {''key_down'', ''key_up'', ''flags_changed''}) s s'"
proof (induction calls arbitrary: s)
  case Nil
  then show ?case by (auto split: if_splits intro: appended_refl)
next
  case (Cons arrivals calls)
  show ?case
  proof (cases "running_tm s = 0")
    case True
    with Cons.prems show ?thesis by (auto intro: appended_refl)
  next
    case False
    with Cons.prems obtain s1 where s1: "deliver_all_tm s arrivals = Inr s1"
      "run_loop_tm s1 calls = Some (Inr s')"
      by (auto split: sum.splits)
    from deliver_all_tm_typed [OF s1(1)] Cons.IH [OF s1(2)] show ?thesis
      by (rule appended_trans)
  qed
qed

lemma run_loop_tm_typed_in_range:
  assumes "run_loop_tm s calls = Some (Inr s')"
    and "\<forall>arrivals\<in>set calls. \<forall>type ev. Tap type ev \<in> set arrivals \<and> type = kCGEventFlagsChanged \<longrightarrow>
             0 \<le> sint (cg_keycode ev) \<and> sint (cg_keycode ev) < 256"
  shows "appended (\<lambda>i. typed_event {''key_down'', ''key_up''}) s s'"
  using assms
proof (induction calls arbitrary: s)
  case Nil
  then show ?case by (auto split: if_splits intro: appended_refl)
next
  case (Cons arrivals calls)
  show ?case
  proof (cases "running_tm s = 0")
    case True
    with Cons.prems show ?thesis by (auto intro: appended_refl)
  next
    case False
    with Cons.prems(1) obtain s1 where s1: "deliver_all_tm s arrivals = Inr s1"
      "run_loop_tm s1 calls = Some (Inr s')"
      by (auto split: sum.splits)
    have here: "\<forall>type ev. Tap type ev \<in> set arrivals \<and> type = kCGEventFlagsChanged \<longrightarrow>
             0 \<le> sint (cg_keycode ev) \<and> sint (cg_keycode ev) < 256"
      using Cons.prems(2) by simp
    have rest: "\<forall>arrivals\<in>set calls. \<forall>type ev. Tap type ev \<in> set arrivals \<and> type = kCGEventFlagsChanged \<longrightarrow>
             0 \<le> sint (cg_keycode ev) \<and> sint (cg_keycode ev) < 256"
      using Cons.prems(2) by simp
    from deliver_all_tm_typed_in_range [OF s1(1) here] Cons.IH [OF s1(2) rest] show ?thesis
      by (rule appended_trans)
  qed
qed

lemma main_tm_files:
  assumes "main_tm argv dir tap_created env calls = Some r"
    and "unbroken (time_str env)" and "unbroken (platform_ver env)" and "unbroken (machine env)"
    and "\<forall>d. plain (fmt_3f env d)"
    and "T = {''key_down'', ''key_up'', ''flags_changed''} \<or>
         T = {''key_down'', ''key_up''} \<and>
         (\<forall>arrivals\<in>set calls. \<forall>type ev. Tap type ev \<in> set arrivals \<and> type = kCGEventFlagsChanged \<longrightarrow>
             0 \<le> sint (cg_keycode ev) \<and> sint (cg_keycode ev) < 256)"
  shows "\<exists>status s. r = Inr (status, s) \<and>
           (\<forall>e\<in>set (snapshot s). event_type e \<in> T) \<and>
           (\<forall>text\<in>set (written_texts (io_log s)). rows_typed T text)"
proof (cases tap_created)
  case False
  with assms(1) have "r = Inr (1, tm_init)"
    by (simp add: main_tm_def Let_def)
  then show ?thesis
    by (simp add: snapshot_def) (simp add: tm_init_def)
next
  case True
  let ?path = "if length argv > 1 then argv ! 1
               else snprintf 1024 (dir @ ''/../output/c_terminal_macos.csv'')"
  from assms(1) True have m: "main_tm argv dir True env calls = Some r" by simp
  from main_tm_flush [OF m] obtain s_end where
    s_end: "run_loop_tm tm_init calls = Some (Inr s_end)" "io_log s_end = []"
      "r = Inr (0, write_csv_tm env ?path s_end)"
    by blast
  have T: "\<forall>t\<in>T. plain t"
    using assms(6) by auto
  have "appended (\<lambda>i. typed_event T) tm_init s_end"
    using assms(6) run_loop_tm_typed [OF s_end(1)] run_loop_tm_typed_in_range [OF s_end(1)]
    by blast
  then have typed: "\<forall>i<event_count s_end. typed_event T (events s_end i)"
    by (rule appended_all) simp
  have rows: "rows_typed T (csv_text_mac ''terminal'' env s_end)"
    using typed_text_mac(1) [OF _ assms(2,3,4,5) typed T, of "''terminal''"] by simp
  have "\<forall>e\<in>set (snapshot (write_csv_tm env ?path s_end)). event_type e \<in> T"
    using typed by (simp add: snapshot_all write_csv_tm_def typed_event_def)
  moreover have "\<forall>text\<in>set (written_texts (io_log (write_csv_tm env ?path s_end))).
          rows_typed T text"
    using rows s_end(2) by (simp add: write_csv_tm_def write_csv_mac_def)
  ultimately show ?thesis
    using s_end(3) by blast
qed

lemma hd_data_rows:
  "rows_typed T text \<Longrightarrow> length (data_rows text) = 1 \<Longrightarrow>
   event_type_field (hd (data_rows text)) \<in> Some ` T"
  by (cases "data_rows text") (auto simp: rows_typed_def)

lemma env0_plain:
  "unbroken (time_str win_env0)" "\<forall>d. plain (fmt_3f win_env0 d)"
  "unbroken (time_str mac_env0)" "unbroken (platform_ver mac_env0)" "unbroken (machine mac_env0)"
  "\<forall>d. plain (fmt_3f mac_env0 d)"
proof -
  have "plain (fmt_d x @ ''.000'')" for x
    using fmt_d_plain [of x] by (simp add: plain_def)
  then show "\<forall>d. plain (fmt_3f win_env0 d)" "\<forall>d. plain (fmt_3f mac_env0 d)"
    by (simp_all add: win_env0_def mac_env0_def)
  show "unbroken (time_str win_env0)" "unbroken (time_str mac_env0)"
    "unbroken (platform_ver mac_env0)" "unbroken (machine mac_env0)"
    by (simp_all add: win_env0_def mac_env0_def unbroken_def)
qed

lemma tw_session_example:
  "\<exists>s text. main_tw [''terminal_windows.exe''] True win_env0
       [([Hook hook_a_down, Ctrl CTRL_C_EVENT], True)] = Some (Inr (0, s)) \<and>
     written_texts (io_log s) = [text] \<and> length (data_rows text) = 1"
proof -
  let ?calls = "[([Hook hook_a_down, Ctrl CTRL_C_EVENT], True)]"
  have "\<exists>s1. message_loop_tw tw_init ?calls = Some (Inr s1) \<and> event_count s1 = 1 \<and> io_log s1 = []"
    by (simp add: eval_defs console_handler_def CTRL_C_EVENT_def)
  then obtain s1 where s1: "message_loop_tw tw_init ?calls = Some (Inr s1)" "event_count s1 = 1"
    "io_log s1 = []"
    by blast
  have typed: "\<forall>i<event_count s1. typed_event {''key_down'', ''key_up''} (events s1 i)"
    using message_loop_tw_typed [OF s1(1)] by (rule appended_all) simp
  have "length (data_rows (csv_text_win ''terminal'' win_env0 s1)) = 1"
    using typed_text_win(2) [OF _ env0_plain(1,2) typed typed_plain(1), of "''terminal''"] s1(2)
    by simp
  moreover have "main_tw [''terminal_windows.exe''] True win_env0 ?calls =
      Some (Inr (0, write_csv_tw win_env0 DEFAULT_OUTPUT_tw s1))"
    using s1(1) by (simp add: main_tw_def)
  moreover have "written_texts (io_log (write_csv_tw win_env0 DEFAULT_OUTPUT_tw s1)) =
      [csv_text_win ''terminal'' win_env0 s1]"
    using s1(3) by (simp add: write_csv_tw_def write_csv_win_def win_env0_def)
  ultimately show ?thesis by blast
qed

lemma gw_session_example:
  "\<exists>s text. run_wnd_proc win_env0 (gw_init []) [wnd_a_down, wnd_escape] = Inr s \<and>
     written_texts (io_log s) = [text] \<and> length (data_rows text) = 1"
proof -
  have "\<exists>s1. wnd_proc win_env0 (gw_init []) wnd_a_down = Inr s1 \<and> event_count s1 = 1 \<and>
      io_log s1 = []"
    by (simp add: eval_defs)
  then obtain s1 where s1: "wnd_proc win_env0 (gw_init []) wnd_a_down = Inr s1"
    "event_count s1 = 1" "io_log s1 = []"
    by blast
  have typed: "\<forall>i<event_count s1. typed_event {''key_down'', ''key_up''} (events s1 i)"
    using wnd_proc_typed [OF s1(1)] by (rule appended_all) simp
  have "length (data_rows (csv_text_win ''gui'' win_env0 s1)) = 1"
    using typed_text_win(2) [OF _ env0_plain(1,2) typed typed_plain(1), of "''gui''"] s1(2)
    by simp
  moreover have "wnd_proc win_env0 s1 wnd_escape =
      Inr ((write_csv_gw win_env0 s1)\<lparr>quit_posted_gw := True\<rparr>)"
    by (simp add: wnd_proc_def wnd_escape_def wnd_a_down_def WM_KEYDOWN_def VK_ESCAPE_def)
  then have "run_wnd_proc win_env0 (gw_init []) [wnd_a_down, wnd_escape] =
      Inr ((write_csv_gw win_env0 s1)\<lparr>quit_posted_gw := True\<rparr>)"
    using s1(1) by simp
  moreover have "written_texts (io_log ((write_csv_gw win_env0 s1)\<lparr>quit_posted_gw := True\<rparr>)) =
      [csv_text_win ''gui'' win_env0 s1]"
    using s1(3) by (simp add: write_csv_gw_def write_csv_win_def win_env0_def)
  ultimately show ?thesis by blast
qed

lemma gm_session_example:
  "\<exists>s text. run_gm mac_env0 (gm_init ''out.csv'') [KeyDown ns_a, KeyDown ns_escape] = Inr s \<and>
     written_texts (io_log s) = [text] \<and> length (data_rows text) = 1"
proof -
  have "\<exists>s1. deliver_gm mac_env0 (gm_init ''out.csv'') (KeyDown ns_a) = Inr s1 \<and>
      event_count s1 = 1 \<and> io_log s1 = [] \<and> \<not> exited s1"
    by (simp add: eval_defs)
  then obtain s1 where s1: "deliver_gm mac_env0 (gm_init ''out.csv'') (KeyDown ns_a) = Inr s1"
    "event_count s1 = 1" "io_log s1 = []" "\<not> exited s1"
    by blast
  have typed: "\<forall>i<event_count s1. typed_event {''key_down'', ''key_up''} (events s1 i)"
    using deliver_gm_typed [OF s1(1)] by (rule appended_all) simp
  have "length (data_rows (csv_text_mac ''gui'' mac_env0 s1)) = 1"
    using typed_text_mac(2) [OF _ env0_plain(3,4,5,6) typed typed_plain(1), of "''gui''"] s1(2)
    by simp
  moreover have "keyDown mac_env0 s1 ns_escape =
      Inr ((write_csv_gm mac_env0 s1)\<lparr>exited := True\<rparr>)"
    by (simp add: keyDown_def ns_escape_def ns_a_def)
  then have "run_gm mac_env0 (gm_init ''out.csv'') [KeyDown ns_a, KeyDown ns_escape] =
      Inr ((write_csv_gm mac_env0 s1)\<lparr>exited := True\<rparr>)"
    using s1(1,4) by (simp add: gm_init_def)
  moreover have "written_texts (io_log ((write_csv_gm mac_env0 s1)\<lparr>exited := True\<rparr>)) =
      [csv_text_mac ''gui'' mac_env0 s1]"
    using s1(3) by (simp add: write_csv_gm_def write_csv_mac_def mac_env0_def)
  ultimately show ?thesis by blast
qed

lemma tm_session_example:
  "\<exists>s text. main_tm [''terminal_macos''] ''.'' True mac_env0
       [[Tap kCGEventFlagsChanged cg_shift, Sig 2]] = Some (Inr (0, s)) \<and>
     written_texts (io_log s) = [text] \<and> length (data_rows text) = 1"
proof -
  let ?calls = "[[Tap kCGEventFlagsChanged cg_shift, Sig 2]]"
  let ?path = "snprintf 1024 (''.'' @ ''/../output/c_terminal_macos.csv'')"
  have "\<exists>s1. run_loop_tm tm_init ?calls = Some (Inr s1) \<and> event_count s1 = 1 \<and> io_log s1 = []"
    by (simp add: eval_defs signal_handler_tm_def)
  then obtain s1 where s1: "run_loop_tm tm_init ?calls = Some (Inr s1)" "event_count s1 = 1"
    "io_log s1 = []"
    by blast
  have typed: "\<forall>i<event_count s1.
      typed_event {''key_down'', ''key_up'', ''flags_changed''} (events s1 i)"
    using run_loop_tm_typed [OF s1(1)] by (rule appended_all) simp
  have "length (data_rows (csv_text_mac ''terminal'' mac_env0 s1)) = 1"
    using typed_text_mac(2) [OF _ env0_plain(3,4,5,6) typed typed_plain(2), of "''terminal''"] s1(2)
    by simp
  moreover have "main_tm [''terminal_macos''] ''.'' True mac_env0 ?calls =
      Some (Inr (0, write_csv_tm mac_env0 ?path s1))"
    using s1(1) by (simp add: main_tm_def)
  moreover have "written_texts (io_log (write_csv_tm mac_env0 ?path s1)) =
      [csv_text_mac ''terminal'' mac_env0 s1]"
    using s1(3) by (simp add: write_csv_tm_def write_csv_mac_def mac_env0_def)
  ultimately show ?thesis by blast
qed

lemma gw_snapshot_example:
  "run_wnd_proc win_env0 (gw_init []) [wnd_a_down, wnd_escape] = Inr s \<Longrightarrow> snapshot s \<noteq> []"
  by (auto simp: eval_defs wnd_escape_def write_csv_gw_def)

lemma high_char: "keycode_to_char_tm 0x100 = ''0x100''"
  by (simp add: keycode_to_char_tm_def map_tm_length_def snprintf_def fmt_02x_def hex_digits.simps)

lemma high_mod: "build_modifier_string_tm 0x20000 64 = ''shift''"
  by (simp add: build_modifier_string_tm_def
      kCGEventFlagMaskShift_def kCGEventFlagMaskControl_def kCGEventFlagMaskAlternate_def
      kCGEventFlagMaskCommand_def strncat_def)

lemma high_main:
  "main_tm [''terminal_macos''] ''.'' True mac_env0 [[Tap kCGEventFlagsChanged cg_high, Sig 2]] =
   Some (Inr (0, write_csv_tm mac_env0 ''./../output/c_terminal_macos.csv'' tm_after_high))"
  by (simp add: main_tm_def signal_handler_tm_def tm_after_high_def event_callback_def
      cg_high_def cg_shift_def tm_init_def events_put_def MAX_EVENTS_def kCGEventFlagsChanged_def
      kCGEventKeyDown_def kCGEventKeyUp_def Let_def high_char high_mod strncpy_def snprintf_def)

lemma high_row:
  "csv_row (\<lambda>x. fmt_d x @ ''.000'') (events tm_after_high 0) =
   ''1,10.000,5000.000,flags_changed,256,0,0x100,shift,0'' @ newline"
  by (simp add: tm_after_high_def csv_row_def fmt_d_def dec_digits.simps)

lemma high_text:
  "csv_text_mac ''terminal'' mac_env0 tm_after_high =
   concat (map (\<lambda>l. l @ newline)
     [''# platform=macOS-26.2-arm64'', ''# language=c'', ''# mode=terminal'',
      ''# clock_source=mach_absolute_time'',
      ''# start_time_utc=2026-02-01T14:00:28.000000Z'',
      ''seq,timestamp_ms,event_timestamp_ms,event_type,keycode,scancode,character,modifiers,is_repeat'',
      ''1,10.000,5000.000,flags_changed,256,0,0x100,shift,0''])"
proof -
  have "snapshot tm_after_high = [events tm_after_high 0]"
    by (simp add: snapshot_def tm_after_high_def)
  then show ?thesis
    by (simp add: csv_text_mac_def csv_table_def csv_header_def high_row mac_env0_def)
qed

lemma high_rows:
  "data_rows (csv_text_mac ''terminal'' mac_env0 tm_after_high) =
     [''1,10.000,5000.000,flags_changed,256,0,0x100,shift,0'']"
proof -
  have "lines_of (csv_text_mac ''terminal'' mac_env0 tm_after_high) =
     [''# platform=macOS-26.2-arm64'', ''# language=c'', ''# mode=terminal'',
      ''# clock_source=mach_absolute_time'',
      ''# start_time_utc=2026-02-01T14:00:28.000000Z'',
      ''seq,timestamp_ms,event_timestamp_ms,event_type,keycode,scancode,character,modifiers,is_repeat'',
      ''1,10.000,5000.000,flags_changed,256,0,0x100,shift,0'']"
    unfolding high_text by (rule lines_of_lines) simp
  then show ?thesis
    by (simp add: data_rows_def)
qed

subsection \<open>Which token for which key\<close>
































subsection \<open>What each handler does\<close>









section \<open>The claims\<close>




text \<open>
  C2, as amended. In every program each call succeeds, and every record accepted into the
  buffer has the event type \<open>key_down\<close> or \<open>key_up\<close>, and so has the fourth field of
  every data row of every file the program writes (given that the conversion \<^verbatim>\<open>%.3f\<close>
  yields no comma or newline and that the strings of the metadata lines hold no newline),
  with one exception: the event tap of terminal\_macos.c records a flags-changed event whose
  keycode lies outside \<open>0..255\<close> with the event type \<open>flags_changed\<close>, which is then the
  field of its row. When no such event is delivered, the records and rows of
  terminal\_macos.c too have \<open>key_down\<close> and \<open>key_up\<close> only.
\<close>

theorem event_type_values:
  "(\<exists>s'. run_keyboard_hook tw_init hs = Inr s' \<and>
         (\<forall>e\<in>set (snapshot s'). event_type e \<in> {''key_down'', ''key_up''})) \<and>
   (main_tw argv hook_installed wenv calls = Some r \<and>
    unbroken (time_str wenv) \<and> (\<forall>d. plain (fmt_3f wenv d)) \<longrightarrow>
      (\<exists>status s. r = Inr (status, s) \<and>
         (\<forall>e\<in>set (snapshot s). event_type e \<in> {''key_down'', ''key_up''}) \<and>
         (\<forall>text\<in>set (written_texts (io_log s)). rows_typed {''key_down'', ''key_up''} text))) \<and>
   (\<exists>s'. run_wnd_proc wenv (gw_init cmd) ms = Inr s' \<and>
         (\<forall>e\<in>set (snapshot s'). event_type e \<in> {''key_down'', ''key_up''}) \<and>
         (unbroken (time_str wenv) \<and> (\<forall>d. plain (fmt_3f wenv d)) \<longrightarrow>
            (\<forall>text\<in>set (written_texts (io_log s')).
               rows_typed {''key_down'', ''key_up''} text))) \<and>
   (\<exists>s'. run_gm menv (gm_init path) cs = Inr s' \<and>
         (\<forall>e\<in>set (snapshot s'). event_type e \<in> {''key_down'', ''key_up''}) \<and>
         (unbroken (time_str menv) \<and> unbroken (platform_ver menv) \<and> unbroken (machine menv) \<and>
          (\<forall>d. plain (fmt_3f menv d)) \<longrightarrow>
            (\<forall>text\<in>set (written_texts (io_log s')).
               rows_typed {''key_down'', ''key_up''} text))) \<and>
   (\<exists>s'. deliver_all_tm tm_init xs = Inr s' \<and>
         (\<forall>e\<in>set (snapshot s'). event_type e \<in> {''key_down'', ''key_up'', ''flags_changed''}) \<and>
         ((\<forall>type ev. Tap type ev \<in> set xs \<and> type = kCGEventFlagsChanged \<longrightarrow>
             0 \<le> sint (cg_keycode ev) \<and> sint (cg_keycode ev) < 256) \<longrightarrow>
          (\<forall>e\<in>set (snapshot s'). event_type e \<in> {''key_down'', ''key_up''}))) \<and>
   (main_tm argv' dir tap_created menv calls' = Some r' \<and>
    unbroken (time_str menv) \<and> unbroken (platform_ver menv) \<and> unbroken (machine menv) \<and>
    (\<forall>d. plain (fmt_3f menv d)) \<longrightarrow>
      (\<exists>status s. r' = Inr (status, s) \<and>
         (\<forall>e\<in>set (snapshot s). event_type e \<in> {''key_down'', ''key_up'', ''flags_changed''}) \<and>
         (\<forall>text\<in>set (written_texts (io_log s)).
            rows_typed {''key_down'', ''key_up'', ''flags_changed''} text) \<and>
         ((\<forall>arrivals\<in>set calls'. \<forall>type ev.
             Tap type ev \<in> set arrivals \<and> type = kCGEventFlagsChanged \<longrightarrow>
             0 \<le> sint (cg_keycode ev) \<and> sint (cg_keycode ev) < 256) \<longrightarrow>
          (\<forall>e\<in>set (snapshot s). event_type e \<in> {''key_down'', ''key_up''}) \<and>
          (\<forall>text\<in>set (written_texts (io_log s)).
             rows_typed {''key_down'', ''key_up''} text))))"
proof (intro conjI)
  obtain s' where "run_keyboard_hook tw_init hs = Inr s'" "appended new_tw tw_init s'"
    using run_keyboard_hook_appended by blast
  then show "\<exists>s'. run_keyboard_hook tw_init hs = Inr s' \<and>
         (\<forall>e\<in>set (snapshot s'). event_type e \<in> {''key_down'', ''key_up''})"
    using appended_types [of new_tw tw_init s' "{''key_down'', ''key_up''}"]
    by (auto simp: new_tw_def)
next
  show "main_tw argv hook_installed wenv calls = Some r \<and>
    unbroken (time_str wenv) \<and> (\<forall>d. plain (fmt_3f wenv d)) \<longrightarrow>
      (\<exists>status s. r = Inr (status, s) \<and>
         (\<forall>e\<in>set (snapshot s). event_type e \<in> {''key_down'', ''key_up''}) \<and>
         (\<forall>text\<in>set (written_texts (io_log s)). rows_typed {''key_down'', ''key_up''} text))"
    using main_tw_files [of argv hook_installed wenv calls r] by blast
next
  obtain s' where s': "run_wnd_proc wenv (gw_init cmd) ms = Inr s'"
    "appended new_rec (gw_init cmd) s'"
    using run_wnd_proc_appended by blast
  have a: "\<forall>e\<in>set (snapshot s'). event_type e \<in> {''key_down'', ''key_up''}"
    using appended_types [of new_rec "gw_init cmd" s' "{''key_down'', ''key_up''}"] s'(2)
    by (auto simp: new_rec_def)
  have b: "\<forall>text\<in>set (written_texts (io_log s')). rows_typed {''key_down'', ''key_up''} text"
    if "unbroken (time_str wenv) \<and> (\<forall>d. plain (fmt_3f wenv d))"
    using run_wnd_proc_files [OF s'(1), of ] that by (simp add: gw_init_def)
  from s'(1) a b show "\<exists>s'. run_wnd_proc wenv (gw_init cmd) ms = Inr s' \<and>
         (\<forall>e\<in>set (snapshot s'). event_type e \<in> {''key_down'', ''key_up''}) \<and>
         (unbroken (time_str wenv) \<and> (\<forall>d. plain (fmt_3f wenv d)) \<longrightarrow>
            (\<forall>text\<in>set (written_texts (io_log s')).
               rows_typed {''key_down'', ''key_up''} text))"
    by blast
next
  obtain s' where s': "run_gm menv (gm_init path) cs = Inr s'" "appended new_rec (gm_init path) s'"
    using run_gm_appended by blast
  have a: "\<forall>e\<in>set (snapshot s'). event_type e \<in> {''key_down'', ''key_up''}"
    using appended_types [of new_rec "gm_init path" s' "{''key_down'', ''key_up''}"] s'(2)
    by (auto simp: new_rec_def)
  have b: "\<forall>text\<in>set (written_texts (io_log s')). rows_typed {''key_down'', ''key_up''} text"
    if "unbroken (time_str menv) \<and> unbroken (platform_ver menv) \<and> unbroken (machine menv) \<and>
          (\<forall>d. plain (fmt_3f menv d))"
    using run_gm_files [OF s'(1)] that by (simp add: gm_init_def)
  from s'(1) a b show "\<exists>s'. run_gm menv (gm_init path) cs = Inr s' \<and>
         (\<forall>e\<in>set (snapshot s'). event_type e \<in> {''key_down'', ''key_up''}) \<and>
         (unbroken (time_str menv) \<and> unbroken (platform_ver menv) \<and> unbroken (machine menv) \<and>
          (\<forall>d. plain (fmt_3f menv d)) \<longrightarrow>
            (\<forall>text\<in>set (written_texts (io_log s')).
               rows_typed {''key_down'', ''key_up''} text))"
    by blast
next
  obtain s' where s': "deliver_all_tm tm_init xs = Inr s'" "appended new_tm tm_init s'"
    using deliver_all_tm_appended by blast
  have a: "\<forall>e\<in>set (snapshot s'). event_type e \<in> {''key_down'', ''key_up'', ''flags_changed''}"
    using appended_types [of new_tm tm_init s' "{''key_down'', ''key_up'', ''flags_changed''}"] s'
    by (auto simp: new_tm_def)
  have b: "\<forall>e\<in>set (snapshot s'). event_type e \<in> {''key_down'', ''key_up''}"
    if "\<forall>type ev. Tap type ev \<in> set xs \<and> type = kCGEventFlagsChanged \<longrightarrow>
             0 \<le> sint (cg_keycode ev) \<and> sint (cg_keycode ev) < 256"
  proof -
    from deliver_all_tm_in_range [OF that, of tm_init] s'(1)
    have "appended new_rec tm_init s'" by auto
    then show ?thesis
      using appended_types [of new_rec tm_init s' "{''key_down'', ''key_up''}"]
      by (auto simp: new_rec_def)
  qed
  from s'(1) a b show "\<exists>s'. deliver_all_tm tm_init xs = Inr s' \<and>
         (\<forall>e\<in>set (snapshot s'). event_type e \<in> {''key_down'', ''key_up'', ''flags_changed''}) \<and>
         ((\<forall>type ev. Tap type ev \<in> set xs \<and> type = kCGEventFlagsChanged \<longrightarrow>
             0 \<le> sint (cg_keycode ev) \<and> sint (cg_keycode ev) < 256) \<longrightarrow>
          (\<forall>e\<in>set (snapshot s'). event_type e \<in> {''key_down'', ''key_up''}))"
    by blast
next
  show "main_tm argv' dir tap_created menv calls' = Some r' \<and>
    unbroken (time_str menv) \<and> unbroken (platform_ver menv) \<and> unbroken (machine menv) \<and>
    (\<forall>d. plain (fmt_3f menv d)) \<longrightarrow>
      (\<exists>status s. r' = Inr (status, s) \<and>
         (\<forall>e\<in>set (snapshot s). event_type e \<in> {''key_down'', ''key_up'', ''flags_changed''}) \<and>
         (\<forall>text\<in>set (written_texts (io_log s)).
            rows_typed {''key_down'', ''key_up'', ''flags_changed''} text) \<and>
         ((\<forall>arrivals\<in>set calls'. \<forall>type ev.
             Tap type ev \<in> set arrivals \<and> type = kCGEventFlagsChanged \<longrightarrow>
             0 \<le> sint (cg_keycode ev) \<and> sint (cg_keycode ev) < 256) \<longrightarrow>
          (\<forall>e\<in>set (snapshot s). event_type e \<in> {''key_down'', ''key_up''}) \<and>
          (\<forall>text\<in>set (written_texts (io_log s)).
             rows_typed {''key_down'', ''key_up''} text)))"
  proof -
    have concl: "\<exists>status s. r' = Inr (status, s) \<and>
         (\<forall>e\<in>set (snapshot s). event_type e \<in> {''key_down'', ''key_up'', ''flags_changed''}) \<and>
         (\<forall>text\<in>set (written_texts (io_log s)).
            rows_typed {''key_down'', ''key_up'', ''flags_changed''} text) \<and>
         ((\<forall>arrivals\<in>set calls'. \<forall>type ev.
             Tap type ev \<in> set arrivals \<and> type = kCGEventFlagsChanged \<longrightarrow>
             0 \<le> sint (cg_keycode ev) \<and> sint (cg_keycode ev) < 256) \<longrightarrow>
          (\<forall>e\<in>set (snapshot s). event_type e \<in> {''key_down'', ''key_up''}) \<and>
          (\<forall>text\<in>set (written_texts (io_log s)).
             rows_typed {''key_down'', ''key_up''} text))"
      if m: "main_tm argv' dir tap_created menv calls' = Some r'"
        and e: "unbroken (time_str menv)" "unbroken (platform_ver menv)" "unbroken (machine menv)"
          "\<forall>d. plain (fmt_3f menv d)"
    proof -
      from main_tm_files [OF m e, of "{''key_down'', ''key_up'', ''flags_changed''}"]
      obtain status s where s: "r' = Inr (status, s)"
        "\<forall>e\<in>set (snapshot s). event_type e \<in> {''key_down'', ''key_up'', ''flags_changed''}"
        "\<forall>text\<in>set (written_texts (io_log s)).
           rows_typed {''key_down'', ''key_up'', ''flags_changed''} text"
        by auto
      have "(\<forall>e\<in>set (snapshot s). event_type e \<in> {''key_down'', ''key_up''}) \<and>
            (\<forall>text\<in>set (written_texts (io_log s)). rows_typed {''key_down'', ''key_up''} text)"
        if "\<forall>arrivals\<in>set calls'. \<forall>type ev.
               Tap type ev \<in> set arrivals \<and> type = kCGEventFlagsChanged \<longrightarrow>
               0 \<le> sint (cg_keycode ev) \<and> sint (cg_keycode ev) < 256"
        using main_tm_files [OF m e, of "{''key_down'', ''key_up''}"] that s(1) by auto
      with s show ?thesis by blast
    qed
    then show ?thesis by blast
  qed
qed

theorem event_type_values_witness:
  "event_type (hd (recorded (run_keyboard_hook tw_init [hook_a_down, hook_a_down_flagged])))
     \<in> {''key_down'', ''key_up''} \<and>
   (\<exists>s text. main_tw [''terminal_windows.exe''] True win_env0
        [([Hook hook_a_down, Ctrl CTRL_C_EVENT], True)] = Some (Inr (0, s)) \<and>
      written_texts (io_log s) = [text] \<and> length (data_rows text) = 1 \<and>
      event_type_field (hd (data_rows text)) \<in> {Some ''key_down'', Some ''key_up''}) \<and>
   (\<exists>s text. run_wnd_proc win_env0 (gw_init []) [wnd_a_down, wnd_escape] = Inr s \<and>
      event_type (hd (snapshot s)) \<in> {''key_down'', ''key_up''} \<and>
      written_texts (io_log s) = [text] \<and> length (data_rows text) = 1 \<and>
      event_type_field (hd (data_rows text)) \<in> {Some ''key_down'', Some ''key_up''}) \<and>
   (\<exists>s text. run_gm mac_env0 (gm_init ''out.csv'') [KeyDown ns_a, KeyDown ns_escape] = Inr s \<and>
      written_texts (io_log s) = [text] \<and> length (data_rows text) = 1 \<and>
      event_type_field (hd (data_rows text)) \<in> {Some ''key_down'', Some ''key_up''}) \<and>
   event_type (hd (recorded (deliver_all_tm tm_init
      [Tap kCGEventFlagsChanged cg_shift, Tap kCGEventFlagsChanged cg_shift])))
     \<in> {''key_down'', ''key_up''} \<and>
   (\<exists>s text. main_tm [''terminal_macos''] ''.'' True mac_env0
        [[Tap kCGEventFlagsChanged cg_shift, Sig 2]] = Some (Inr (0, s)) \<and>
      written_texts (io_log s) = [text] \<and> length (data_rows text) = 1 \<and>
      event_type_field (hd (data_rows text)) \<in> {Some ''key_down'', Some ''key_up''})"
proof -
  have range: "\<forall>type ev.
      Tap type ev \<in> set [Tap kCGEventFlagsChanged cg_shift, Tap kCGEventFlagsChanged cg_shift] \<and>
      type = kCGEventFlagsChanged \<longrightarrow> 0 \<le> sint (cg_keycode ev) \<and> sint (cg_keycode ev) < 256"
    "\<forall>arrivals\<in>set [[Tap kCGEventFlagsChanged cg_shift, Sig 2]]. \<forall>type ev.
      Tap type ev \<in> set arrivals \<and> type = kCGEventFlagsChanged \<longrightarrow>
      0 \<le> sint (cg_keycode ev) \<and> sint (cg_keycode ev) < 256"
    by (simp_all add: cg_shift_def)
  obtain a ta where a: "main_tw [''terminal_windows.exe''] True win_env0
        [([Hook hook_a_down, Ctrl CTRL_C_EVENT], True)] = Some (Inr (0, a))"
      "written_texts (io_log a) = [ta]" "length (data_rows ta) = 1"
    using tw_session_example by blast
  obtain b tb where b: "run_wnd_proc win_env0 (gw_init []) [wnd_a_down, wnd_escape] = Inr b"
      "written_texts (io_log b) = [tb]" "length (data_rows tb) = 1"
    using gw_session_example by blast
  obtain c tc where c: "run_gm mac_env0 (gm_init ''out.csv'') [KeyDown ns_a, KeyDown ns_escape] = Inr c"
      "written_texts (io_log c) = [tc]" "length (data_rows tc) = 1"
    using gm_session_example by blast
  obtain d td where d: "main_tm [''terminal_macos''] ''.'' True mac_env0
        [[Tap kCGEventFlagsChanged cg_shift, Sig 2]] = Some (Inr (0, d))"
      "written_texts (io_log d) = [td]" "length (data_rows td) = 1"
    using tm_session_example by blast
  note inst = event_type_values [where hs = "[hook_a_down, hook_a_down_flagged]"
      and argv = "[''terminal_windows.exe'']" and hook_installed = True and wenv = win_env0
      and calls = "[([Hook hook_a_down, Ctrl CTRL_C_EVENT], True)]" and r = "Inr (0, a)"
      and cmd = "[]" and ms = "[wnd_a_down, wnd_escape]"
      and menv = mac_env0 and path = "''out.csv''" and cs = "[KeyDown ns_a, KeyDown ns_escape]"
      and xs = "[Tap kCGEventFlagsChanged cg_shift, Tap kCGEventFlagsChanged cg_shift]"
      and argv' = "[''terminal_macos'']" and dir = "''.''" and tap_created = True
      and calls' = "[[Tap kCGEventFlagsChanged cg_shift, Sig 2]]" and r' = "Inr (0, d)"]
  note i1 = inst [THEN conjunct1]
  note i2 = inst [THEN conjunct2, THEN conjunct1]
  note i3 = inst [THEN conjunct2, THEN conjunct2, THEN conjunct1]
  note i4 = inst [THEN conjunct2, THEN conjunct2, THEN conjunct2, THEN conjunct1]
  note i5 = inst [THEN conjunct2, THEN conjunct2, THEN conjunct2, THEN conjunct2, THEN conjunct1]
  note i6 = inst [THEN conjunct2, THEN conjunct2, THEN conjunct2, THEN conjunct2, THEN conjunct2]
  from i1 obtain s1 where
    r1: "run_keyboard_hook tw_init [hook_a_down, hook_a_down_flagged] = Inr s1"
      "\<forall>e\<in>set (snapshot s1). event_type e \<in> {''key_down'', ''key_up''}"
    by blast
  from i2 a(1) env0_plain(1,2)
  have r2: "\<forall>text\<in>set (written_texts (io_log a)). rows_typed {''key_down'', ''key_up''} text"
    by blast
  from i3 b(1) env0_plain(1,2)
  have r3: "\<forall>e\<in>set (snapshot b). event_type e \<in> {''key_down'', ''key_up''}"
    "\<forall>text\<in>set (written_texts (io_log b)). rows_typed {''key_down'', ''key_up''} text"
    by auto
  from i4 c(1) env0_plain(3,4,5,6)
  have r4: "\<forall>text\<in>set (written_texts (io_log c)). rows_typed {''key_down'', ''key_up''} text"
    by auto
  from i5 range(1) obtain s4 where
    r5: "deliver_all_tm tm_init
          [Tap kCGEventFlagsChanged cg_shift, Tap kCGEventFlagsChanged cg_shift] = Inr s4"
      "\<forall>e\<in>set (snapshot s4). event_type e \<in> {''key_down'', ''key_up''}"
    by blast
  from i6 d(1) env0_plain(3,4,5,6) range(2)
  have r6: "\<forall>text\<in>set (written_texts (io_log d)). rows_typed {''key_down'', ''key_up''} text"
    by blast
  have rows: "event_type_field (hd (data_rows ta)) \<in> {Some ''key_down'', Some ''key_up''}"
    "event_type_field (hd (data_rows tb)) \<in> {Some ''key_down'', Some ''key_up''}"
    "event_type_field (hd (data_rows tc)) \<in> {Some ''key_down'', Some ''key_up''}"
    "event_type_field (hd (data_rows td)) \<in> {Some ''key_down'', Some ''key_up''}"
    using r2 r3(2) r4 r6 a(2,3) b(2,3) c(2,3) d(2,3)
      hd_data_rows [of "{''key_down'', ''key_up''}"]
    by auto
  have "snapshot b \<noteq> []"
    using gw_snapshot_example b(1) by simp
  then have hb: "event_type (hd (snapshot b)) \<in> {''key_down'', ''key_up''}"
    using r3(1) by (cases "snapshot b") auto
  show ?thesis
    using hd_recorded [OF r1(1) recorded_tw_example] r1(2)
      hd_recorded [OF r5(1) recorded_tm_example] r5(2)
      a b c d rows hb
    by blast
qed

text \<open>
  The claim as stated fails: a flags-changed event with keycode 256, delivered to the tap at
  the start of a session, is accepted with an event type that is neither of the two, and
  after the interrupt \<^verbatim>\<open>main\<close> writes it into the data row of the file.
\<close>

theorem event_type_flags_changed_counterexample:
  "map event_type (recorded (event_callback tm_init kCGEventFlagsChanged cg_high)) =
     [''flags_changed''] \<and>
   ''flags_changed'' \<noteq> ''key_down'' \<and> ''flags_changed'' \<noteq> ''key_up'' \<and>
   main_tm [''terminal_macos''] ''.'' True mac_env0 [[Tap kCGEventFlagsChanged cg_high, Sig 2]] =
     Some (Inr (0, write_csv_tm mac_env0 ''./../output/c_terminal_macos.csv'' tm_after_high)) \<and>
   written_texts (io_log (write_csv_tm mac_env0 ''./../output/c_terminal_macos.csv'' tm_after_high)) =
     [csv_text_mac ''terminal'' mac_env0 tm_after_high] \<and>
   data_rows (csv_text_mac ''terminal'' mac_env0 tm_after_high) =
     [''1,10.000,5000.000,flags_changed,256,0,0x100,shift,0''] \<and>
   event_type_field ''1,10.000,5000.000,flags_changed,256,0,0x100,shift,0'' =
     Some ''flags_changed''"
proof -
  have "map event_type (recorded (event_callback tm_init kCGEventFlagsChanged cg_high)) =
     [''flags_changed'']"
    by (simp add: recorded_def snapshot_def event_callback_def tm_init_def cg_high_def cg_shift_def
        events_put_def MAX_EVENTS_def kCGEventFlagsChanged_def kCGEventKeyDown_def
        kCGEventKeyUp_def Let_def)
  moreover have "written_texts
      (io_log (write_csv_tm mac_env0 ''./../output/c_terminal_macos.csv'' tm_after_high)) =
     [csv_text_mac ''terminal'' mac_env0 tm_after_high]"
    by (simp add: write_csv_tm_def write_csv_mac_def mac_env0_def tm_after_high_def tm_init_def
        written_texts_def)
  moreover have "event_type_field ''1,10.000,5000.000,flags_changed,256,0,0x100,shift,0'' =
     Some ''flags_changed''"
    by (simp add: event_type_field_def fields_of_def)
  ultimately show ?thesis
    using high_main high_rows by simp
qed

text \<open>
  C3. In every program, whatever is delivered from the start of a session, the calls succeed
  and the \<open>seq\<close> fields of the accepted records, in acceptance order, are
  \<open>1, 2, ..., event_count\<close>.
\<close>

theorem seq_gapless:
  "(\<exists>s'. run_keyboard_hook tw_init hs = Inr s' \<and>
         map seq (snapshot s') = map int [1..<Suc (event_count s')]) \<and>
   (\<exists>s'. run_wnd_proc wenv (gw_init cmd) ms = Inr s' \<and>
         map seq (snapshot s') = map int [1..<Suc (event_count s')]) \<and>
   (\<exists>s'. run_gm menv (gm_init path) cs = Inr s' \<and>
         map seq (snapshot s') = map int [1..<Suc (event_count s')]) \<and>
   (\<exists>s'. deliver_all_tm tm_init xs = Inr s' \<and>
         map seq (snapshot s') = map int [1..<Suc (event_count s')])"
proof (intro conjI)
  obtain s' where "run_keyboard_hook tw_init hs = Inr s'" "appended new_tw tw_init s'"
    using run_keyboard_hook_appended by blast
  then show "\<exists>s'. run_keyboard_hook tw_init hs = Inr s' \<and>
         map seq (snapshot s') = map int [1..<Suc (event_count s')]"
    using appended_seq [of new_tw tw_init s'] by (auto simp: new_tw_def)
next
  obtain s' where "run_wnd_proc wenv (gw_init cmd) ms = Inr s'" "appended new_rec (gw_init cmd) s'"
    using run_wnd_proc_appended by blast
  then show "\<exists>s'. run_wnd_proc wenv (gw_init cmd) ms = Inr s' \<and>
         map seq (snapshot s') = map int [1..<Suc (event_count s')]"
    using appended_seq [of new_rec "gw_init cmd" s'] by (auto simp: new_rec_def)
next
  obtain s' where "run_gm menv (gm_init path) cs = Inr s'" "appended new_rec (gm_init path) s'"
    using run_gm_appended by blast
  then show "\<exists>s'. run_gm menv (gm_init path) cs = Inr s' \<and>
         map seq (snapshot s') = map int [1..<Suc (event_count s')]"
    using appended_seq [of new_rec "gm_init path" s'] by (auto simp: new_rec_def)
next
  obtain s' where "deliver_all_tm tm_init xs = Inr s'" "appended new_tm tm_init s'"
    using deliver_all_tm_appended by blast
  then show "\<exists>s'. deliver_all_tm tm_init xs = Inr s' \<and>
         map seq (snapshot s') = map int [1..<Suc (event_count s')]"
    using appended_seq [of new_tm tm_init s'] by (auto simp: new_tm_def)
qed

theorem seq_gapless_witness:
  "map seq (recorded (run_keyboard_hook tw_init [hook_a_down, hook_a_down_flagged])) = [1, 2] \<and>
   map seq (recorded (run_wnd_proc win_env0 (gw_init '''') [wnd_a_down, wnd_a_down])) = [1, 2] \<and>
   map seq (recorded (run_gm mac_env0 (gm_init ''out.csv'')
      [KeyDown ns_a, FlagsChanged ns_shift])) = [1, 2] \<and>
   map seq (recorded (deliver_all_tm tm_init
      [Tap kCGEventFlagsChanged cg_shift, Tap kCGEventFlagsChanged cg_shift])) = [1, 2]"
proof -
  have two: "map int [1..<Suc n] = [1, 2]" if "n = 2" for n
    using that by (simp add: upt_rec)
  from seq_gapless [of "[hook_a_down, hook_a_down_flagged]"
      win_env0 "''''" "[wnd_a_down, wnd_a_down]"
      mac_env0 "''out.csv''" "[KeyDown ns_a, FlagsChanged ns_shift]"
      "[Tap kCGEventFlagsChanged cg_shift, Tap kCGEventFlagsChanged cg_shift]"]
  obtain s1 s2 s3 s4 where
    r1: "run_keyboard_hook tw_init [hook_a_down, hook_a_down_flagged] = Inr s1"
      "map seq (snapshot s1) = map int [1..<Suc (event_count s1)]" and
    r2: "run_wnd_proc win_env0 (gw_init '''') [wnd_a_down, wnd_a_down] = Inr s2"
      "map seq (snapshot s2) = map int [1..<Suc (event_count s2)]" and
    r3: "run_gm mac_env0 (gm_init ''out.csv'') [KeyDown ns_a, FlagsChanged ns_shift] = Inr s3"
      "map seq (snapshot s3) = map int [1..<Suc (event_count s3)]" and
    r4: "deliver_all_tm tm_init
          [Tap kCGEventFlagsChanged cg_shift, Tap kCGEventFlagsChanged cg_shift] = Inr s4"
      "map seq (snapshot s4) = map int [1..<Suc (event_count s4)]"
    by blast
  have "event_count s1 = 2"
    using recorded_tw_example r1(1) by (simp add: recorded_def snapshot_def)
  moreover have "event_count s2 = 2"
    using recorded_gw_example r2(1) by (simp add: recorded_def snapshot_def)
  moreover have "event_count s3 = 2"
    using recorded_gm_example r3(1) by (simp add: recorded_def snapshot_def)
  moreover have "event_count s4 = 2"
    using recorded_tm_example r4(1) by (simp add: recorded_def snapshot_def)
  ultimately show ?thesis
    using r1 r2 r3 r4 two by (simp add: recorded_def)
qed

text \<open>
  C4. In every program and from every state of the globals, delivering any sequence of events
  never fails; the records accepted before are unchanged; the counter does not pass
  \<open>MAX_EVENTS\<close>; and once the buffer is full, every further event leaves the buffer as it
  is (the hook of terminal\_windows.c leaves all its globals as they are).
\<close>

theorem append_at_capacity:
  "(\<exists>s'. run_keyboard_hook s hs = Inr s' \<and>
         (\<forall>i<event_count s. events s' i = events s i) \<and>
         (event_count s \<le> MAX_EVENTS \<longrightarrow> event_count s' \<le> MAX_EVENTS) \<and>
         (MAX_EVENTS \<le> event_count s \<longrightarrow> s' = s)) \<and>
   (\<exists>g'. run_wnd_proc wenv g ms = Inr g' \<and>
         (\<forall>i<event_count g. events g' i = events g i) \<and>
         (event_count g \<le> MAX_EVENTS \<longrightarrow> event_count g' \<le> MAX_EVENTS) \<and>
         (MAX_EVENTS \<le> event_count g \<longrightarrow>
            events g' = events g \<and> event_count g' = event_count g)) \<and>
   (\<exists>m'. run_gm menv m cs = Inr m' \<and>
         (\<forall>i<event_count m. events m' i = events m i) \<and>
         (event_count m \<le> MAX_EVENTS \<longrightarrow> event_count m' \<le> MAX_EVENTS) \<and>
         (MAX_EVENTS \<le> event_count m \<longrightarrow>
            events m' = events m \<and> event_count m' = event_count m)) \<and>
   (\<exists>t'. deliver_all_tm t xs = Inr t' \<and>
         (\<forall>i<event_count t. events t' i = events t i) \<and>
         (event_count t \<le> MAX_EVENTS \<longrightarrow> event_count t' \<le> MAX_EVENTS) \<and>
         (MAX_EVENTS \<le> event_count t \<longrightarrow>
            events t' = events t \<and> event_count t' = event_count t))"
proof (intro conjI)
  obtain s' where "run_keyboard_hook s hs = Inr s'" "appended new_tw s s'"
    using run_keyboard_hook_appended by blast
  then show "\<exists>s'. run_keyboard_hook s hs = Inr s' \<and>
         (\<forall>i<event_count s. events s' i = events s i) \<and>
         (event_count s \<le> MAX_EVENTS \<longrightarrow> event_count s' \<le> MAX_EVENTS) \<and>
         (MAX_EVENTS \<le> event_count s \<longrightarrow> s' = s)"
    using run_keyboard_hook_full [of s hs] by (auto simp: appended_def)
next
  obtain g' where "run_wnd_proc wenv g ms = Inr g'" "appended new_rec g g'"
    using run_wnd_proc_appended by blast
  then show "\<exists>g'. run_wnd_proc wenv g ms = Inr g' \<and>
         (\<forall>i<event_count g. events g' i = events g i) \<and>
         (event_count g \<le> MAX_EVENTS \<longrightarrow> event_count g' \<le> MAX_EVENTS) \<and>
         (MAX_EVENTS \<le> event_count g \<longrightarrow>
            events g' = events g \<and> event_count g' = event_count g)"
    by (auto simp: appended_def)
next
  obtain m' where "run_gm menv m cs = Inr m'" "appended new_rec m m'"
    using run_gm_appended by blast
  then show "\<exists>m'. run_gm menv m cs = Inr m' \<and>
         (\<forall>i<event_count m. events m' i = events m i) \<and>
         (event_count m \<le> MAX_EVENTS \<longrightarrow> event_count m' \<le> MAX_EVENTS) \<and>
         (MAX_EVENTS \<le> event_count m \<longrightarrow>
            events m' = events m \<and> event_count m' = event_count m)"
    by (auto simp: appended_def)
next
  obtain t' where "deliver_all_tm t xs = Inr t'" "appended new_tm t t'"
    using deliver_all_tm_appended by blast
  then show "\<exists>t'. deliver_all_tm t xs = Inr t' \<and>
         (\<forall>i<event_count t. events t' i = events t i) \<and>
         (event_count t \<le> MAX_EVENTS \<longrightarrow> event_count t' \<le> MAX_EVENTS) \<and>
         (MAX_EVENTS \<le> event_count t \<longrightarrow>
            events t' = events t \<and> event_count t' = event_count t)"
    by (auto simp: appended_def)
qed

theorem append_at_capacity_witness:
  "MAX_EVENTS \<le> event_count tw_full \<and>
   run_keyboard_hook tw_full [hook_a_down, hook_a_down_flagged] = Inr tw_full \<and>
   recorded (run_wnd_proc win_env0 gw_full [wnd_a_down, wnd_a_down]) = snapshot gw_full \<and>
   recorded (run_gm mac_env0 gm_full [KeyDown ns_a, FlagsChanged ns_shift]) = snapshot gm_full \<and>
   recorded (deliver_all_tm tm_full [Tap kCGEventFlagsChanged cg_shift]) = snapshot tm_full"
  using append_at_capacity [of tw_full "[hook_a_down, hook_a_down_flagged]"
      win_env0 gw_full "[wnd_a_down, wnd_a_down]"
      mac_env0 gm_full "[KeyDown ns_a, FlagsChanged ns_shift]"
      tm_full "[Tap kCGEventFlagsChanged cg_shift]"]
  by (auto simp: tw_full_def gw_full_def gm_full_def tm_full_def recorded_def snapshot_def)

text \<open>
  C5. On macOS the modifier string is the one of the specification, with \<open>cmd\<close> for the
  meta key (lemma \<open>build_modifier_string_gm_spec\<close>). On Windows
  \<^verbatim>\<open>build_modifier_string\<close> asks for shift, control and alt only: with the Windows key
  held and nothing else, the string is \<open>none\<close>, not the \<open>win\<close> the claim asks for.
\<close>

theorem windows_modifiers_without_win:
  "only_win_held VK_LWIN AND 0x8000 \<noteq> 0 \<and>
   build_modifier_string_win only_win_held 64 = ''none'' \<and>
   build_modifier_string_win only_win_held 64 \<noteq> modifiers_spec ''win'' False False False True"
  by (simp add: build_modifier_string_win_def only_win_held_def modifiers_spec_def
      add_modifier_def strncat_def strncpy_def Let_def VK_LWIN_def VK_SHIFT_def VK_CONTROL_def
      VK_MENU_def)




text \<open>
  C7, as amended. For a key identifier below 256 and with room in the buffer, a toggle
  notification resolves to \<open>key_up\<close> and clears the key when it is marked held, and to
  \<open>key_down\<close> and marks it otherwise; so two consecutive notifications for the same key,
  starting from an unmarked key and with room for two records, are recorded as \<open>key_down\<close>
  then \<open>key_up\<close> and leave the tracker as it was. This holds for
  \<^verbatim>\<open>record_flags_changed\<close> of gui\_macos.m and for \<^verbatim>\<open>event_callback\<close> of
  terminal\_macos.c.
\<close>

theorem toggle_alternates:
  "(event_count s < MAX_EVENTS \<and> keyCode ev < 256 \<longrightarrow>
      (\<exists>s'. record_flags_changed s ev = Inr s' \<and>
         event_type (events s' (event_count s)) =
           (if modifier_key_down s (unat (keyCode ev)) \<noteq> 0 then ''key_up'' else ''key_down'') \<and>
         modifier_key_down s' =
           (modifier_key_down s)
             (unat (keyCode ev) := (if modifier_key_down s (unat (keyCode ev)) \<noteq> 0 then 0 else 1)))) \<and>
   (Suc (event_count s) < MAX_EVENTS \<and> keyCode ev < 256 \<and> keyCode ev2 = keyCode ev \<and>
    modifier_key_down s (unat (keyCode ev)) = 0 \<longrightarrow>
      (\<exists>s1 s2. record_flags_changed s ev = Inr s1 \<and> record_flags_changed s1 ev2 = Inr s2 \<and>
         event_count s2 = event_count s + 2 \<and>
         event_type (events s2 (event_count s)) = ''key_down'' \<and>
         event_type (events s2 (Suc (event_count s))) = ''key_up'' \<and>
         modifier_key_down s1 (unat (keyCode ev)) = 1 \<and>
         modifier_key_down s2 = modifier_key_down s)) \<and>
   (event_count u < MAX_EVENTS \<and> 0 \<le> sint (cg_keycode cev) \<and> sint (cg_keycode cev) < 256 \<longrightarrow>
      (\<exists>u'. event_callback u kCGEventFlagsChanged cev = Inr u' \<and>
         event_type (events u' (event_count u)) =
           (if modifier_key_down_tm u (nat (sint (cg_keycode cev))) \<noteq> 0
            then ''key_up'' else ''key_down'') \<and>
         modifier_key_down_tm u' =
           (modifier_key_down_tm u)
             (nat (sint (cg_keycode cev)) :=
                (if modifier_key_down_tm u (nat (sint (cg_keycode cev))) \<noteq> 0 then 0 else 1)))) \<and>
   (Suc (event_count u) < MAX_EVENTS \<and> 0 \<le> sint (cg_keycode cev) \<and> sint (cg_keycode cev) < 256 \<and>
    cg_keycode cev2 = cg_keycode cev \<and> modifier_key_down_tm u (nat (sint (cg_keycode cev))) = 0 \<longrightarrow>
      (\<exists>u1 u2. event_callback u kCGEventFlagsChanged cev = Inr u1 \<and>
         event_callback u1 kCGEventFlagsChanged cev2 = Inr u2 \<and>
         event_count u2 = event_count u + 2 \<and>
         event_type (events u2 (event_count u)) = ''key_down'' \<and>
         event_type (events u2 (Suc (event_count u))) = ''key_up'' \<and>
         modifier_key_down_tm u1 (nat (sint (cg_keycode cev))) = 1 \<and>
         modifier_key_down_tm u2 = modifier_key_down_tm u))"
proof (intro conjI impI)
  assume "event_count s < MAX_EVENTS \<and> keyCode ev < 256"
  then show "\<exists>s'. record_flags_changed s ev = Inr s' \<and>
         event_type (events s' (event_count s)) =
           (if modifier_key_down s (unat (keyCode ev)) \<noteq> 0 then ''key_up'' else ''key_down'') \<and>
         modifier_key_down s' =
           (modifier_key_down s)
             (unat (keyCode ev) := (if modifier_key_down s (unat (keyCode ev)) \<noteq> 0 then 0 else 1))"
    using record_flags_changed_toggle [of s ev] by blast
next
  assume a: "Suc (event_count s) < MAX_EVENTS \<and> keyCode ev < 256 \<and> keyCode ev2 = keyCode ev \<and>
    modifier_key_down s (unat (keyCode ev)) = 0"
  then obtain s1 where s1: "record_flags_changed s ev = Inr s1"
      "event_count s1 = Suc (event_count s)"
      "event_type (events s1 (event_count s)) = ''key_down''"
      "modifier_key_down s1 = (modifier_key_down s)(unat (keyCode ev) := 1)"
    using record_flags_changed_toggle [of s ev] by auto
  from a s1 obtain s2 where s2: "record_flags_changed s1 ev2 = Inr s2"
      "event_count s2 = Suc (event_count s1)"
      "\<forall>i<event_count s1. events s2 i = events s1 i"
      "event_type (events s2 (event_count s1)) = ''key_up''"
      "modifier_key_down s2 = (modifier_key_down s1)(unat (keyCode ev) := 0)"
    using record_flags_changed_toggle [of s1 ev2] by auto
  have "modifier_key_down s2 = modifier_key_down s"
    using a s1(4) s2(5) by (auto simp: fun_eq_iff)
  with s1 s2 show "\<exists>s1 s2. record_flags_changed s ev = Inr s1 \<and> record_flags_changed s1 ev2 = Inr s2 \<and>
         event_count s2 = event_count s + 2 \<and>
         event_type (events s2 (event_count s)) = ''key_down'' \<and>
         event_type (events s2 (Suc (event_count s))) = ''key_up'' \<and>
         modifier_key_down s1 (unat (keyCode ev)) = 1 \<and>
         modifier_key_down s2 = modifier_key_down s"
    by auto
next
  assume "event_count u < MAX_EVENTS \<and> 0 \<le> sint (cg_keycode cev) \<and> sint (cg_keycode cev) < 256"
  then show "\<exists>u'. event_callback u kCGEventFlagsChanged cev = Inr u' \<and>
         event_type (events u' (event_count u)) =
           (if modifier_key_down_tm u (nat (sint (cg_keycode cev))) \<noteq> 0
            then ''key_up'' else ''key_down'') \<and>
         modifier_key_down_tm u' =
           (modifier_key_down_tm u)
             (nat (sint (cg_keycode cev)) :=
                (if modifier_key_down_tm u (nat (sint (cg_keycode cev))) \<noteq> 0 then 0 else 1))"
    using event_callback_toggle [of u cev] by blast
next
  assume a: "Suc (event_count u) < MAX_EVENTS \<and> 0 \<le> sint (cg_keycode cev) \<and>
    sint (cg_keycode cev) < 256 \<and>
    cg_keycode cev2 = cg_keycode cev \<and> modifier_key_down_tm u (nat (sint (cg_keycode cev))) = 0"
  then obtain u1 where u1: "event_callback u kCGEventFlagsChanged cev = Inr u1"
      "event_count u1 = Suc (event_count u)"
      "event_type (events u1 (event_count u)) = ''key_down''"
      "modifier_key_down_tm u1 = (modifier_key_down_tm u)(nat (sint (cg_keycode cev)) := 1)"
    using event_callback_toggle [of u cev] by auto
  from a u1 obtain u2 where u2: "event_callback u1 kCGEventFlagsChanged cev2 = Inr u2"
      "event_count u2 = Suc (event_count u1)"
      "\<forall>i<event_count u1. events u2 i = events u1 i"
      "event_type (events u2 (event_count u1)) = ''key_up''"
      "modifier_key_down_tm u2 = (modifier_key_down_tm u1)(nat (sint (cg_keycode cev)) := 0)"
    using event_callback_toggle [of u1 cev2] by auto
  have "modifier_key_down_tm u2 = modifier_key_down_tm u"
    using a u1(4) u2(5) by (auto simp: fun_eq_iff)
  with u1 u2 show "\<exists>u1 u2. event_callback u kCGEventFlagsChanged cev = Inr u1 \<and>
         event_callback u1 kCGEventFlagsChanged cev2 = Inr u2 \<and>
         event_count u2 = event_count u + 2 \<and>
         event_type (events u2 (event_count u)) = ''key_down'' \<and>
         event_type (events u2 (Suc (event_count u))) = ''key_up'' \<and>
         modifier_key_down_tm u1 (nat (sint (cg_keycode cev))) = 1 \<and>
         modifier_key_down_tm u2 = modifier_key_down_tm u"
    by auto
qed

theorem toggle_alternates_witness:
  "(\<exists>s1 s2. record_flags_changed (gm_init ''out.csv'') ns_shift = Inr s1 \<and>
      record_flags_changed s1 ns_shift = Inr s2 \<and>
      event_type (events s2 0) = ''key_down'' \<and> event_type (events s2 1) = ''key_up'' \<and>
      modifier_key_down s1 0x38 = 1 \<and> modifier_key_down s2 0x38 = 0) \<and>
   (\<exists>u1 u2. event_callback tm_init kCGEventFlagsChanged cg_shift = Inr u1 \<and>
      event_callback u1 kCGEventFlagsChanged cg_shift = Inr u2 \<and>
      event_type (events u2 0) = ''key_down'' \<and> event_type (events u2 1) = ''key_up'' \<and>
      modifier_key_down_tm u1 0x38 = 1 \<and> modifier_key_down_tm u2 0x38 = 0)"
proof -
  have gm: "Suc (event_count (gm_init ''out.csv'' :: int gm_state)) < MAX_EVENTS \<and>
      keyCode ns_shift < 256 \<and> keyCode ns_shift = keyCode ns_shift \<and>
      modifier_key_down (gm_init ''out.csv'' :: int gm_state) (unat (keyCode ns_shift)) = 0"
    by (simp add: gm_init_def ns_shift_def MAX_EVENTS_def)
  have tm: "Suc (event_count (tm_init :: int tm_state)) < MAX_EVENTS \<and>
      0 \<le> sint (cg_keycode cg_shift) \<and> sint (cg_keycode cg_shift) < 256 \<and>
      cg_keycode cg_shift = cg_keycode cg_shift \<and>
      modifier_key_down_tm (tm_init :: int tm_state) (nat (sint (cg_keycode cg_shift))) = 0"
    by (simp add: tm_init_def cg_shift_def MAX_EVENTS_def)
  have k1: "unat (keyCode ns_shift) = 0x38" by (simp add: ns_shift_def)
  have k2: "nat (sint (cg_keycode cg_shift)) = 0x38" by (simp add: cg_shift_def)
  from toggle_alternates [of "gm_init ''out.csv''" ns_shift ns_shift tm_init cg_shift cg_shift]
    gm tm
  show ?thesis
    unfolding k1 k2 by (auto simp: gm_init_def tm_init_def)
qed

text \<open>
  The claim as stated fails for key identifiers that the tracker does not cover: two
  notifications for the key 256 are recorded as \<open>key_down\<close> twice by gui\_macos.m and as
  \<open>flags_changed\<close> twice by terminal\_macos.c.
\<close>

theorem toggle_alternates_counterexample:
  "map event_type (recorded (run_gm mac_env0 (gm_init ''out.csv'')
      [FlagsChanged ns_high, FlagsChanged ns_high])) = [''key_down'', ''key_down''] \<and>
   map event_type (recorded (deliver_all_tm tm_init
      [Tap kCGEventFlagsChanged cg_high, Tap kCGEventFlagsChanged cg_high])) =
     [''flags_changed'', ''flags_changed'']"
  by (simp add: eval_defs)

text \<open>
  C8. The file has \<open>event_count + 6\<close> lines (lemmas \<open>csv_lines_tw\<close>,
  \<open>csv_lines_gm\<close>), and in gui\_macos.m every data row has nine fields (lemma
  \<open>csv_fields_gm\<close>). In terminal\_windows.c a data row has nine fields unless the
  character of the record is the comma (lemma \<open>csv_fields_tw\<close>): \<^verbatim>\<open>vk_to_char\<close>
  resolves the comma key to the character \<open>,\<close>, which \<^verbatim>\<open>write_csv\<close> prints unquoted.
  A session of this one key and Ctrl+C writes a file of \<open>1 + 6\<close> lines whose data row has
  ten comma-separated fields.
\<close>

theorem comma_key_row_has_ten_fields:
  "\<exists>s text.
     main_tw [''terminal_windows.exe''] True win_env0
       [([Hook hook_comma_down, Ctrl CTRL_C_EVENT], True)] = Some (Inr (0, s)) \<and>
     character (events s 0) = '','' \<and>
     io_log s = [Wrote DEFAULT_OUTPUT_tw text] \<and>
     length (lines_of text) = 1 + 6 \<and>
     lines_of text ! 6 = ''1,10.000,5000.000,key_down,188,51,,,none,0'' \<and>
     length (fields_of (lines_of text ! 6)) = 10"
proof -
  have fopen: "fopen_ok win_env0" and log: "io_log tw_after_comma = []"
    and ch: "character (events tw_after_comma 0) = '',''"
    by (simp_all add: win_env0_def tw_after_comma_def tw_init_def)
  show ?thesis
    unfolding comma_main
    by (simp add: write_csv_tw_def write_csv_win_def fopen log ch comma_lines comma_fields)
qed

text \<open>
  C9. On the low-level hook of terminal\_windows.c the repeat flag is computed by
  \<^verbatim>\<open>(kb->flags & LLKHF_UP) ? 0 : 0\<close>: whatever the hook is called with, and from whatever
  state, the calls succeed and every record they add to the buffer has \<open>is_repeat = 0\<close>.
\<close>

theorem keyboard_hook_is_repeat_zero:
  "\<exists>s'. run_keyboard_hook s hs = Inr s' \<and>
        (\<forall>i. event_count s \<le> i \<and> i < event_count s' \<longrightarrow> is_repeat (events s' i) = 0)"
proof -
  obtain s' where "run_keyboard_hook s hs = Inr s'" and "appended new_tw s s'"
    using run_keyboard_hook_appended by blast
  then show ?thesis
    by (auto simp: appended_def new_tw_def)
qed

theorem keyboard_hook_is_repeat_zero_witness:
  "\<exists>s'. run_keyboard_hook tw_init [hook_a_down, hook_a_down_flagged] = Inr s' \<and>
        event_count s' = 2 \<and> is_repeat (events s' 0) = 0 \<and> is_repeat (events s' 1) = 0"
proof -
  have run: "\<exists>s'. run_keyboard_hook tw_init [hook_a_down, hook_a_down_flagged] = Inr s' \<and>
        event_count s' = 2"
    by (simp add: keyboard_hook_def tw_init_def hook_a_down_def hook_a_down_flagged_def
        events_put_def MAX_EVENTS_def WM_KEYDOWN_def Let_def)
  with keyboard_hook_is_repeat_zero [of tw_init "[hook_a_down, hook_a_down_flagged]"]
  show ?thesis
    by (auto simp: tw_init_def)
qed

text \<open>
  C10. With a full buffer, \<^verbatim>\<open>record_flags_changed\<close> and \<^verbatim>\<open>record_event\<close> of
  gui\_macos.m and \<^verbatim>\<open>event_callback\<close> of terminal\_macos.c return the globals as they
  were, the table of held modifier keys included; a run goes on as if the dropped event had
  not been delivered; and no callback of gui\_macos.m changes the buffer or the table.
\<close>

theorem full_buffer_no_mutation:
  "(MAX_EVENTS \<le> event_count s \<longrightarrow>
      record_flags_changed s ev = Inr s \<and> record_event s ev t = Inr s \<and>
      run_gm menv s (FlagsChanged ev # cs) = run_gm menv s cs \<and>
      (\<exists>s'. deliver_gm menv s c = Inr s' \<and> events s' = events s \<and>
            event_count s' = event_count s \<and> modifier_key_down s' = modifier_key_down s)) \<and>
   (MAX_EVENTS \<le> event_count u \<longrightarrow>
      event_callback u type cev = Inr u \<and>
      deliver_all_tm u (Tap type cev # xs) = deliver_all_tm u xs)"
proof (intro conjI impI)
  assume full: "MAX_EVENTS \<le> event_count s"
  then show "record_flags_changed s ev = Inr s"
    by (rule record_flags_changed_full)
  from full show "record_event s ev t = Inr s"
    by (rule record_event_full)
  from full show "run_gm menv s (FlagsChanged ev # cs) = run_gm menv s cs"
    by (simp add: flagsChanged_def record_flags_changed_full run_gm_exited)
  from full show "\<exists>s'. deliver_gm menv s c = Inr s' \<and> events s' = events s \<and>
            event_count s' = event_count s \<and> modifier_key_down s' = modifier_key_down s"
    by (rule deliver_gm_full)
next
  assume full: "MAX_EVENTS \<le> event_count u"
  then show "event_callback u type cev = Inr u"
    by (rule event_callback_full)
  from full show "deliver_all_tm u (Tap type cev # xs) = deliver_all_tm u xs"
    by (simp add: event_callback_full)
qed

theorem full_buffer_no_mutation_witness:
  "MAX_EVENTS \<le> event_count gm_full \<and> MAX_EVENTS \<le> event_count tm_full \<and>
   record_flags_changed gm_full ns_shift = Inr gm_full \<and>
   modifier_key_down gm_full 0x38 = 0 \<and>
   event_callback tm_full kCGEventFlagsChanged cg_shift = Inr tm_full \<and>
   modifier_key_down_tm tm_full 0x38 = 0"
  using full_buffer_no_mutation [of gm_full ns_shift "''key_down''" mac_env0 "[]" "FlagsChanged ns_shift"
      tm_full kCGEventFlagsChanged cg_shift "[]"]
  by (simp add: gm_full_def tm_full_def gm_init_def tm_init_def)


end
